theory Spec2Isabelle
  imports Main "HOL-Library.AList"
begin

section \<open>Values, dictionaries and errors\<close>

text \<open>
  The scraper works on the dictionaries that the catalog response is decoded into. A
  value stored under a key of such a dictionary is a string, an integer, one of the two
  kinds of typed group (a list of name/content items for the keys \<open>int\<close>, \<open>str\<close> and
  \<open>date\<close>; a list of links, each with an optional \<open>rel\<close> and an \<open>href\<close>, for the key
  \<open>link\<close>), or a geometry object of the geometry libraries, whose type \<open>'g\<close> is left
  open.
\<close>

datatype 'g val =
    VStr string
  | VInt int
  | VItems "(string \<times> string) list"
  | VLinks "(string option \<times> string) list"
  | VObj 'g

type_synonym 'g dict = "string \<rightharpoonup> 'g val"

datatype error =
    KeyError string
  | TypeError
  | ValueError
  | AttributeError
  | RuntimeError string
  | HTTPError nat
  | OSError
  | External string

text \<open>
  What the script takes from Python's builtins and from the libraries it imports is a
  parameter of the model: \<open>py_int\<close> is \<open>int()\<close> on a string (\<open>None\<close> where it raises
  ValueError), \<open>py_str\<close> is the text that \<open>%s\<close> formatting gives a value that is not a
  string, and \<open>footprint_geo\<close> is what lines 107--109 compute from the footprint with
  shapely and geojson: the location and the bounding box, or the error they raise.
\<close>

record 'g env =
  py_int :: "string \<Rightarrow> int option"
  py_str :: "'g val \<Rightarrow> string"
  footprint_geo :: "'g val \<Rightarrow> error + ('g \<times> 'g)"

definition ebind :: "error + 'a \<Rightarrow> ('a \<Rightarrow> error + 'b) \<Rightarrow> error + 'b" where
  "ebind m f = (case m of Inl e \<Rightarrow> Inl e | Inr x \<Rightarrow> f x)"

text \<open>A \<open>for\<close> loop whose body may raise: the first error ends it.\<close>

fun for_each :: "('a \<Rightarrow> 's \<Rightarrow> error + 's) \<Rightarrow> 'a list \<Rightarrow> 's \<Rightarrow> error + 's" where
  "for_each f [] s = Inr s"
| "for_each f (x # xs) s = (case f x s of Inl e \<Rightarrow> Inl e | Inr s' \<Rightarrow> for_each f xs s')"

definition lookup :: "'g dict \<Rightarrow> string \<Rightarrow> error + 'g val" where
  "lookup res k = (case res k of None \<Rightarrow> Inl (KeyError k) | Some v \<Rightarrow> Inr v)"

definition fmt :: "'g env \<Rightarrow> 'g val \<Rightarrow> string" where
  "fmt env v = (case v of VStr s \<Rightarrow> s | _ \<Rightarrow> py_str env v)"

section \<open>massage\_result\<close>

text \<open>
  \<open>for i in res[k]\<close> followed by \<open>i['name']\<close>: the value under the key is read once,
  when the loop starts. A list of items is iterated. A non-empty list of links has no
  \<open>name\<close> key in its first element; a non-empty string iterates over characters, which
  cannot be subscripted by a string; an integer is not iterable; an empty list or string
  runs no iteration. Geometry objects are stored only after the four loops; a geojson
  geometry iterates over its string keys, on which the subscript raises the TypeError.
\<close>

definition iter_items :: "'g dict \<Rightarrow> string \<Rightarrow> error + (string \<times> string) list" where
  "iter_items res k =
     (case res k of
        None \<Rightarrow> Inl (KeyError k)
      | Some (VItems xs) \<Rightarrow> Inr xs
      | Some (VLinks ls) \<Rightarrow> (if ls = [] then Inr [] else Inl (KeyError ''name''))
      | Some (VStr s) \<Rightarrow> (if s = [] then Inr [] else Inl TypeError)
      | Some (VInt n) \<Rightarrow> Inl TypeError
      | Some (VObj g) \<Rightarrow> Inl TypeError)"

definition iter_links :: "'g dict \<Rightarrow> string \<Rightarrow> error + (string option \<times> string) list" where
  "iter_links res k =
     (case res k of
        None \<Rightarrow> Inl (KeyError k)
      | Some (VLinks ls) \<Rightarrow> Inr ls
      | Some (VItems xs) \<Rightarrow> (if xs = [] then Inr [] else Inl (KeyError ''href''))
      | Some (VStr s) \<Rightarrow> (if s = [] then Inr [] else Inl TypeError)
      | Some (VInt n) \<Rightarrow> Inl TypeError
      | Some (VObj g) \<Rightarrow> Inl TypeError)"

text \<open>Lines 71--75: the integer fields.\<close>

fun int_field :: "'g env \<Rightarrow> string \<times> string \<Rightarrow> 'g dict \<Rightarrow> error + 'g dict" where
  "int_field env (name, content) res =
     (case py_int env content of
        None \<Rightarrow> Inl ValueError
      | Some n \<Rightarrow>
          Inr (if name = ''orbitnumber'' then res(''orbitNumber'' \<mapsto> VInt n)
               else if name = ''relativeorbitnumber'' then res(''trackNumber'' \<mapsto> VInt n)
               else res(name \<mapsto> VInt n)))"

definition set_int_fields :: "'g env \<Rightarrow> 'g dict \<Rightarrow> error + 'g dict" where
  "set_int_fields env res =
     ebind (iter_items res ''int'') (\<lambda>items.
     ebind (for_each (int_field env) items res) (\<lambda>res'.
     Inr (res'(''int'' := None))))"

text \<open>Lines 78--83: the links.\<close>

fun link_field :: "string option \<times> string \<Rightarrow> 'g dict \<Rightarrow> error + 'g dict" where
  "link_field (Some rel, href) res = Inr (res(rel \<mapsto> VStr href))"
| "link_field (None, href) res = Inr (res(''download_url'' \<mapsto> VStr href))"

definition set_links :: "'g dict \<Rightarrow> error + 'g dict" where
  "set_links res =
     ebind (iter_links res ''link'') (\<lambda>links.
     ebind (for_each link_field links res) (\<lambda>res'.
     Inr (res'(''link'' := None))))"

text \<open>Lines 86--93: the string fields.\<close>

fun str_field :: "string \<times> string \<Rightarrow> 'g dict \<Rightarrow> error + 'g dict" where
  "str_field (name, content) res =
     (if name = ''orbitdirection'' then
        (if content = ''DESCENDING'' then Inr (res(''direction'' \<mapsto> VStr ''dsc''))
         else if content = ''ASCENDING'' then Inr (res(''direction'' \<mapsto> VStr ''asc''))
         else Inl (RuntimeError (''Failed to recognize orbit direction: '' @ content)))
      else if name = ''endposition'' then Inr (res(''sensingStop'' \<mapsto> VStr content))
      else Inr (res(name \<mapsto> VStr content)))"

definition set_str_fields :: "'g dict \<Rightarrow> error + 'g dict" where
  "set_str_fields res =
     ebind (iter_items res ''str'') (\<lambda>items.
     ebind (for_each str_field items res) (\<lambda>res'.
     Inr (res'(''str'' := None))))"

text \<open>Lines 96--100: the date fields. \<open>replace('Z', '')\<close> removes every \<open>Z\<close>.\<close>

definition replace_Z :: "string \<Rightarrow> string" where
  "replace_Z s = filter (\<lambda>c. c \<noteq> CHR ''Z'') s"

fun date_field :: "string \<times> string \<Rightarrow> 'g dict \<Rightarrow> error + 'g dict" where
  "date_field (name, content) res =
     (if name = ''beginposition'' then Inr (res(''sensingStart'' \<mapsto> VStr (replace_Z content)))
      else if name = ''endposition'' then Inr (res(''sensingStop'' \<mapsto> VStr (replace_Z content)))
      else Inr (res(name \<mapsto> VStr content)))"

definition set_date_fields :: "'g dict \<Rightarrow> error + 'g dict" where
  "set_date_fields res =
     ebind (iter_items res ''date'') (\<lambda>items.
     ebind (for_each date_field items res) (\<lambda>res'.
     Inr (res'(''date'' := None))))"

text \<open>
  \<open>PLATFORM_RE = S1(.+?)_\<close>, used with \<open>search\<close>: the leftmost position where \<open>S1\<close>
  is followed by one character and then, lazily, by the shortest run of characters that
  reaches an underscore. The dot matches every character but the newline.
\<close>

fun until_underscore :: "string \<Rightarrow> string option" where
  "until_underscore [] = None"
| "until_underscore (c # cs) =
     (if c = CHR ''_'' then Some []
      else if c = CHR 0x0A then None
      else map_option ((#) c) (until_underscore cs))"

definition group_at :: "string \<Rightarrow> string option" where
  "group_at s =
     (case s of
        a # b # c # cs \<Rightarrow>
          (if a = CHR ''S'' \<and> b = CHR ''1'' \<and> c \<noteq> CHR 0x0A
           then map_option ((#) c) (until_underscore cs) else None)
      | _ \<Rightarrow> None)"

fun platform_search :: "string \<Rightarrow> string option" where
  "platform_search [] = None"
| "platform_search (c # cs) =
     (case group_at (c # cs) of Some g \<Rightarrow> Some g | None \<Rightarrow> platform_search cs)"

text \<open>
  Lines 103--115: the derived fields. Formatting the title never raises; the footprint
  is read and converted next; the search then needs the title to be a string.
\<close>

definition set_derived :: "'g env \<Rightarrow> 'g dict \<Rightarrow> error + 'g dict" where
  "set_derived env res =
     ebind (lookup res ''title'') (\<lambda>title.
     let res1 = res(''data_product_name'' \<mapsto> VStr (''acquisition-'' @ fmt env title),
                    ''archive_filename'' \<mapsto> VStr (fmt env title @ ''.zip''))
     in
     ebind (lookup res1 ''footprint'') (\<lambda>fp.
     ebind (footprint_geo env fp) (\<lambda>(loc, bbox).
     let res2 = res1(''location'' \<mapsto> VObj loc, ''bbox'' \<mapsto> VObj bbox)
     in
     (case title of
        VStr t \<Rightarrow>
          (case platform_search t of
             None \<Rightarrow> Inl (RuntimeError (''Failed to extract iplatform: '' @ t))
           | Some g \<Rightarrow> Inr (res2(''platform'' \<mapsto> VStr (''Sentinel-1'' @ g))))
      | _ \<Rightarrow> Inl TypeError))))"

text \<open>
  Lines 118--123: the track check. The left operand \<open>res['trackNumber']\<close> is read
  first; the subtraction needs an integer orbit number; \<open>!=\<close> between a value that is
  not an integer and an integer is true.
\<close>

definition track_check :: "int \<Rightarrow> string \<Rightarrow> 'g dict \<Rightarrow> error + 'g dict" where
  "track_check k msg res =
     ebind (lookup res ''trackNumber'') (\<lambda>t.
     ebind (lookup res ''orbitNumber'') (\<lambda>orb.
     (case orb of
        VInt n \<Rightarrow> (if t \<noteq> VInt ((n - k) mod 175 + 1) then Inl (RuntimeError msg) else Inr res)
      | _ \<Rightarrow> Inl TypeError)))"

definition verify_track :: "'g dict \<Rightarrow> error + 'g dict" where
  "verify_track res =
     ebind (lookup res ''platform'') (\<lambda>p.
     ebind (if p = VStr ''Sentinel-1A''
            then track_check 73 ''Failed to verify S1A relative orbit number and track number.'' res
            else Inr res) (\<lambda>res'.
     if p = VStr ''Sentinel-1B''
     then track_check 27 ''Failed to verify S1B relative orbit number and track number.'' res'
     else Inr res'))"

text \<open>
  The Python function mutates its argument and returns nothing; the model returns the
  dictionary as it stands at the end, or the exception.
\<close>

definition massage_result :: "'g env \<Rightarrow> 'g dict \<Rightarrow> error + 'g dict" where
  "massage_result env res =
     ebind (set_int_fields env res) (\<lambda>r1.
     ebind (set_links r1) (\<lambda>r2.
     ebind (set_str_fields r2) (\<lambda>r3.
     ebind (set_date_fields r3) (\<lambda>r4.
     ebind (set_derived env r4) verify_track))))"

section \<open>Dataset descriptors and the file system\<close>

record 'g ds =
  ds_version :: string
  ds_label :: "'g val"
  ds_location :: "'g val"
  ds_starttime :: "'g val"
  ds_endtime :: "'g val"

text \<open>Lines 126--135: the dictionary display reads the four keys from left to right.\<close>

definition get_dataset_json :: "'g dict \<Rightarrow> string \<Rightarrow> error + 'g ds" where
  "get_dataset_json met version =
     ebind (lookup met ''data_product_name'') (\<lambda>l.
     ebind (lookup met ''location'') (\<lambda>loc.
     ebind (lookup met ''sensingStart'') (\<lambda>st.
     ebind (lookup met ''sensingStop'') (\<lambda>en.
     Inr \<lparr>ds_version = version, ds_label = l, ds_location = loc,
          ds_starttime = st, ds_endtime = en\<rparr>))))"

datatype 'g entries = Lone "'g dict" | Many "'g dict list"

text \<open>
  A file holds the JSON document written to it (the dumped value itself, not its text) or
  an image. The world is what outlives an exception: the files and directories, and the
  trace of the calls made to the outside, in order.
\<close>

datatype 'g fcontent = EntriesJson "'g entries" | DsJson "'g ds" | MetJson "'g dict" | Image

datatype event = Fetch string nat | Sleep | Probe string | GetBrowse | Ingest string

record 'g world =
  files :: "string \<rightharpoonup> 'g fcontent"
  dirs :: "string list"
  trace :: "event list"

text \<open>
  The collaborators of the second half of the script: \<open>rhead\<close> is the HEAD request with
  its retries (the status code, or the exception left after the last retry), \<open>abspath\<close>
  is \<open>os.path.abspath\<close>, \<open>mkdtemp\<close> names the temporary directory it creates given the
  directories that exist, \<open>get_browse\<close> is the download and conversion of the browse
  image (\<open>None\<close> when none of its calls raises) and \<open>ingest\<close> is the ingestion call.
\<close>

record 'g sys =
  rhead :: "string \<Rightarrow> error + nat"
  abspath :: "string \<Rightarrow> string"
  mkdtemp :: "string list \<Rightarrow> string"
  get_browse :: "'g val \<Rightarrow> error option"
  ingest :: "string \<Rightarrow> error option"

definition emit :: "event \<Rightarrow> 'g world \<Rightarrow> 'g world" where
  "emit e w = w\<lparr>trace := trace w @ [e]\<rparr>"

definition write_file :: "string \<Rightarrow> 'g fcontent \<Rightarrow> 'g world \<Rightarrow> 'g world" where
  "write_file p c w = w\<lparr>files := (files w)(p \<mapsto> c)\<rparr>"

text \<open>\<open>os.path.join\<close> of two components on POSIX.\<close>

definition path_join :: "string \<Rightarrow> string \<Rightarrow> string" where
  "path_join a b =
     (if b \<noteq> [] \<and> hd b = CHR ''/'' then b
      else if a = [] \<or> last a = CHR ''/'' then a @ b
      else a @ ''/'' @ b)"

section \<open>create\_acq\_dataset and ingest\_acq\_dataset\<close>

text \<open>
  Lines 138--168. The function changes the dictionary \<open>met\<close> of its caller in place, so
  the model returns it with the world in every case, next to the result or the exception.
  \<open>os.makedirs\<close> raises when the path exists and is no directory; the two \<open>open\<close> calls
  and \<open>json.dump\<close> are taken to succeed.
\<close>

definition create_acq_dataset ::
  "'g env \<Rightarrow> 'g sys \<Rightarrow> 'g ds \<Rightarrow> 'g dict \<Rightarrow> string \<Rightarrow> bool \<Rightarrow> 'g world
   \<Rightarrow> ('g dict \<times> 'g world) \<times> (error + ('g val \<times> string))" where
  "create_acq_dataset env sys ds met root_ds_dir browse w =
     (case met ''data_product_name'' of
        None \<Rightarrow> ((met, w), Inl (KeyError ''data_product_name''))
      | Some (VStr i) \<Rightarrow>
          (let ds_dir = path_join (abspath sys root_ds_dir) i in
           if ds_dir \<notin> set (dirs w) \<and> files w ds_dir \<noteq> None then ((met, w), Inl OSError)
           else
             (let w1 = (if ds_dir \<in> set (dirs w) then w else w\<lparr>dirs := dirs w @ [ds_dir]\<rparr>);
                  met1 = met(''query_api'' \<mapsto> VStr ''odata'');
                  ds_file = path_join ds_dir (i @ ''.dataset.json'');
                  met_file = path_join ds_dir (i @ ''.met.json'');
                  w2 = write_file met_file (MetJson met1) (write_file ds_file (DsJson ds) w1)
              in
              if browse then
                (case met1 ''icon'' of
                   None \<Rightarrow> ((met1, w2), Inl (KeyError ''icon''))
                 | Some icon \<Rightarrow>
                     (case get_browse sys icon of
                        Some e \<Rightarrow> ((met1, emit GetBrowse w2), Inl e)
                      | None \<Rightarrow>
                          ((met1, write_file (path_join ds_dir ''browse_small.png'') Image
                                    (write_file (path_join ds_dir ''browse.png'') Image
                                       (emit GetBrowse w2))),
                           Inr (VStr i, ds_dir))))
              else ((met1, w2), Inr (VStr i, ds_dir))))
      | Some v \<Rightarrow> ((met, w), Inl AttributeError))"

definition under :: "string \<Rightarrow> string \<Rightarrow> bool" where
  "under d p = (p = d \<or> take (length d + 1) p = d @ ''/'')"

definition rmtree :: "string \<Rightarrow> 'g world \<Rightarrow> 'g world" where
  "rmtree d w =
     w\<lparr>files := (\<lambda>p. if under d p then None else files w p),
       dirs := filter (\<lambda>p. \<not> under d p) (dirs w)\<rparr>"

text \<open>Lines 171--177.\<close>

definition ingest_acq_dataset ::
  "'g env \<Rightarrow> 'g sys \<Rightarrow> 'g ds \<Rightarrow> 'g dict \<Rightarrow> bool \<Rightarrow> 'g world
   \<Rightarrow> ('g dict \<times> 'g world) \<times> (error + unit)" where
  "ingest_acq_dataset env sys ds met browse w =
     (let tmp_dir = mkdtemp sys (dirs w);
          w0 = w\<lparr>dirs := dirs w @ [tmp_dir]\<rparr>
      in
      case create_acq_dataset env sys ds met tmp_dir browse w0 of
        ((met1, w1), Inl e) \<Rightarrow> ((met1, w1), Inl e)
      | ((met1, w1), Inr (i, ds_dir)) \<Rightarrow>
          (case ingest sys (fmt env i) of
             Some e \<Rightarrow> ((met1, emit (Ingest (fmt env i)) w1), Inl e)
           | None \<Rightarrow> ((met1, rmtree tmp_dir (emit (Ingest (fmt env i)) w1)), Inr ())))"

section \<open>scrape: the query\<close>

text \<open>\<open>s.split('.')\<close>, of which line 195 takes element 0.\<close>

fun split_dot :: "string \<Rightarrow> string list" where
  "split_dot [] = [[]]"
| "split_dot (c # cs) =
     (if c = CHR ''.'' then [] # split_dot cs
      else (case split_dot cs of [] \<Rightarrow> [[c]] | w # ws \<Rightarrow> (c # w) # ws))"

definition first_part :: "string \<Rightarrow> string" where
  "first_part s = (case split_dot s of [] \<Rightarrow> [] | w # ws \<Rightarrow> w)"

definition QUERY_TEMPLATE :: "string \<Rightarrow> string \<Rightarrow> string" where
  "QUERY_TEMPLATE a b =
     ''IngestionDate ge datetime'' @ [CHR 0x27] @ a @ [CHR 0x27] @
     '' and IngestionDate lt datetime'' @ [CHR 0x27] @ b @ [CHR 0x27] @
     '' and substringof('' @ [CHR 0x27] @ ''IW_SLC'' @ [CHR 0x27] @ '',Name)''"

definition build_query :: "string \<Rightarrow> string \<Rightarrow> string" where
  "build_query starttime endtime = QUERY_TEMPLATE (first_part starttime) (first_part endtime)"

section \<open>scrape: the pagination loop\<close>

text \<open>
  The decoded response: \<open>feed_total\<close> is \<open>feed['opensearch:totalResults']\<close> (\<open>None\<close>
  when the key is absent) and \<open>feed_entry\<close> is \<open>feed.get('entry', None)\<close>. A response
  carries its status code and the feed that lines 215--219 index, or the exception that
  decoding the content raises.
\<close>

record 'g feed =
  feed_total :: "string option"
  feed_entry :: "'g entries option"

record 'g response =
  status_code :: nat
  body :: "error + 'g feed"

record 'g info =
  info_met :: "'g dict"
  info_ds :: "'g ds"

text \<open>
  The local variables of the loop. \<open>prods_all\<close> is a dictionary whose items are iterated
  later, so it is an association list, updated in place when the key is there and
  extended otherwise; Python 2 fixes no iteration order, and no theorem below depends on
  the one chosen here.
\<close>

record 'g acc =
  prods_all :: "('g val \<times> 'g info) list"
  offset :: nat
  total_results_expected :: "int option"
  ids_by_track :: "'g val \<rightharpoonup> 'g val list"

definition acc0 :: "'g acc" where
  "acc0 = \<lparr>prods_all = [], offset = 0, total_results_expected = None,
           ids_by_track = Map.empty\<rparr>"

text \<open>Strings and integers can be dictionary keys; lists and dictionaries cannot.\<close>

fun hashable :: "'g val \<Rightarrow> bool" where
  "hashable (VStr s) = True"
| "hashable (VInt n) = True"
| "hashable v = False"

text \<open>Lines 229--241: one entry of a page.\<close>

definition add_entry :: "'g env \<Rightarrow> string \<Rightarrow> 'g dict \<Rightarrow> 'g acc \<Rightarrow> error + 'g acc" where
  "add_entry env version met0 acc =
     ebind (massage_result env met0) (\<lambda>met.
     ebind (get_dataset_json met version) (\<lambda>ds.
     ebind (lookup met ''data_product_name'') (\<lambda>i.
     if \<not> hashable i then Inl TypeError
     else
       (let acc1 = acc\<lparr>prods_all :=
                         AList.update i \<lparr>info_met = met, info_ds = ds\<rparr> (prods_all acc)\<rparr>
        in
        ebind (lookup met ''trackNumber'') (\<lambda>t.
        if \<not> hashable t then Inl TypeError
        else
          Inr (acc1\<lparr>ids_by_track :=
                      (ids_by_track acc1)
                        (t \<mapsto> (case ids_by_track acc1 t of None \<Rightarrow> [] | Some l \<Rightarrow> l) @ [i])\<rparr>))))))"

fun entries_list :: "'g entries \<Rightarrow> 'g dict list" where
  "entries_list (Lone e) = [e]"
| "entries_list (Many es) = es"

text \<open>
  Lines 212--244: what one response does to the world and to the local variables. The
  boolean of the result is \<open>loop\<close>; \<open>break\<close> leaves with it false, before the pause.
  \<open>raise_for_status\<close> raises for the codes from 400 to 599 and for no other.
\<close>

definition raise_for_status :: "nat \<Rightarrow> error option" where
  "raise_for_status code = (if 400 \<le> code \<and> code < 600 then Some (HTTPError code) else None)"

definition read_total :: "'g env \<Rightarrow> 'g feed \<Rightarrow> 'g acc \<Rightarrow> error + 'g acc" where
  "read_total env fd acc =
     (case total_results_expected acc of
        Some n \<Rightarrow> Inr acc
      | None \<Rightarrow>
          (case feed_total fd of
             None \<Rightarrow> Inl (KeyError ''opensearch:totalResults'')
           | Some s \<Rightarrow>
               (case py_int env s of
                  None \<Rightarrow> Inl ValueError
                | Some n \<Rightarrow> Inr (acc\<lparr>total_results_expected := Some n\<rparr>))))"

definition page ::
  "'g env \<Rightarrow> string \<Rightarrow> 'g response \<Rightarrow> 'g acc \<Rightarrow> 'g world
   \<Rightarrow> 'g world \<times> (error + ('g acc \<times> bool))" where
  "page env version r acc w =
     (case raise_for_status (status_code r) of
        Some e \<Rightarrow> (w, Inl e)
      | None \<Rightarrow>
          (case body r of
             Inl e \<Rightarrow> (w, Inl e)
           | Inr fd \<Rightarrow>
               (case read_total env fd acc of
                  Inl e \<Rightarrow> (w, Inl e)
                | Inr acc1 \<Rightarrow>
                    (case feed_entry fd of
                       None \<Rightarrow> (w, Inr (acc1, False))
                     | Some entries \<Rightarrow>
                         (let w1 = write_file ''res.json'' (EntriesJson entries) w;
                              es = entries_list entries;
                              count = length es;
                              acc2 = acc1\<lparr>offset := offset acc1 + count\<rparr>
                          in
                          case for_each (add_entry env version) es acc2 of
                            Inl e \<Rightarrow> (w1, Inl e)
                          | Inr acc3 \<Rightarrow> (emit Sleep w1, Inr (acc3, count > 0)))))))"

text \<open>
  Lines 203--244. The catalog is a script of responses, one for each request in order.
  The loop runs for as long as the catalog sends pages with entries, which may be for
  ever: where the script ends before the loop does, the model has no result (\<open>None\<close>).
\<close>

fun query_loop ::
  "'g env \<Rightarrow> string \<Rightarrow> string \<Rightarrow> 'g response list \<Rightarrow> 'g acc \<Rightarrow> 'g world
   \<Rightarrow> ('g world \<times> (error + 'g acc)) option" where
  "query_loop env query version [] acc w = None"
| "query_loop env query version (r # rs) acc w =
     (case page env version r acc (emit (Fetch query (offset acc)) w) of
        (w1, Inl e) \<Rightarrow> Some (w1, Inl e)
      | (w1, Inr (acc1, loop)) \<Rightarrow>
          (if loop then query_loop env query version rs acc1 w1 else Some (w1, Inr acc1)))"

section \<open>scrape: the existence checks and the modes\<close>

text \<open>Lines 249--257: one HEAD request for each key of \<open>prods_all\<close>.\<close>

fun check_exists ::
  "'g env \<Rightarrow> 'g sys \<Rightarrow> string \<Rightarrow> ('g val \<times> 'g info) list \<Rightarrow> 'g val list \<times> 'g val list
   \<Rightarrow> 'g world \<Rightarrow> 'g world \<times> (error + 'g val list \<times> 'g val list)" where
  "check_exists env sys ds_es_url [] fm w = (w, Inr fm)"
| "check_exists env sys ds_es_url ((acq_id, item) # rest) (prods_found, prods_missing) w =
     (let u = ds_es_url @ ''/'' @ fmt env acq_id;
          w1 = emit (Probe u) w
      in
      case rhead sys u of
        Inl e \<Rightarrow> (w1, Inl e)
      | Inr code \<Rightarrow>
          (if code = 200
           then check_exists env sys ds_es_url rest (prods_found @ [acq_id], prods_missing) w1
           else if code = 404
           then check_exists env sys ds_es_url rest (prods_found, prods_missing @ [acq_id]) w1
           else
             (case raise_for_status code of
                Some e \<Rightarrow> (w1, Inl e)
              | None \<Rightarrow> check_exists env sys ds_es_url rest (prods_found, prods_missing) w1)))"

text \<open>Lines 284--287 and 291--294: the two loops over the missing products.\<close>

fun ingest_missing_loop ::
  "'g env \<Rightarrow> 'g sys \<Rightarrow> ('g val \<times> 'g info) list \<Rightarrow> 'g val list \<Rightarrow> 'g world
   \<Rightarrow> 'g world \<times> (error + unit)" where
  "ingest_missing_loop env sys pa [] w = (w, Inr ())"
| "ingest_missing_loop env sys pa (acq_id # rest) w =
     (case map_of pa acq_id of
        None \<Rightarrow> (w, Inl (KeyError (fmt env acq_id)))
      | Some item \<Rightarrow>
          (case ingest_acq_dataset env sys (info_ds item) (info_met item) False w of
             ((met1, w1), Inl e) \<Rightarrow> (w1, Inl e)
           | ((met1, w1), Inr u) \<Rightarrow> ingest_missing_loop env sys pa rest w1))"

fun create_only_loop ::
  "'g env \<Rightarrow> 'g sys \<Rightarrow> bool \<Rightarrow> ('g val \<times> 'g info) list \<Rightarrow> 'g val list \<Rightarrow> 'g world
   \<Rightarrow> 'g world \<times> (error + unit)" where
  "create_only_loop env sys browse pa [] w = (w, Inr ())"
| "create_only_loop env sys browse pa (acq_id # rest) w =
     (case map_of pa acq_id of
        None \<Rightarrow> (w, Inl (KeyError (fmt env acq_id)))
      | Some item \<Rightarrow>
          (case create_acq_dataset env sys (info_ds item) (info_met item) ''.'' browse w of
             ((met1, w1), Inl e) \<Rightarrow> (w1, Inl e)
           | ((met1, w1), Inr u) \<Rightarrow> create_only_loop env sys browse pa rest w1))"

text \<open>
  What a run that ends without exception has computed: the data of its report.
\<close>

record 'g summary =
  s_prods_all :: "('g val \<times> 'g info) list"
  s_ids_by_track :: "'g val \<rightharpoonup> 'g val list"
  s_found :: "'g val list"
  s_missing :: "'g val list"

text \<open>
  Lines 186--294. The session, the credentials and \<open>email_to\<close> do not reach anything
  modelled; the report of lines 260--276 is text built from the summary and logged. The
  records that the dataset functions change in place are not read again afterwards.
\<close>

definition scrape ::
  "'g env \<Rightarrow> 'g sys \<Rightarrow> string \<Rightarrow> string \<Rightarrow> string \<Rightarrow> string \<Rightarrow> bool \<Rightarrow> bool \<Rightarrow> bool
   \<Rightarrow> 'g response list \<Rightarrow> 'g world \<Rightarrow> ('g world \<times> (error + 'g summary)) option" where
  "scrape env sys ds_es_url starttime endtime version ingest_missing create_only browse
     catalog w =
     (case query_loop env (build_query starttime endtime) version catalog acc0 w of
        None \<Rightarrow> None
      | Some (w1, Inl e) \<Rightarrow> Some (w1, Inl e)
      | Some (w1, Inr acc) \<Rightarrow>
          (case check_exists env sys ds_es_url (prods_all acc) ([], []) w1 of
             (w2, Inl e) \<Rightarrow> Some (w2, Inl e)
           | (w2, Inr (prods_found, prods_missing)) \<Rightarrow>
               (let summ = \<lparr>s_prods_all = prods_all acc, s_ids_by_track = ids_by_track acc,
                            s_found = prods_found, s_missing = prods_missing\<rparr>
                in
                if ingest_missing \<and> create_only
                then Some (w2, Inl (RuntimeError
                       ''Cannot specify ingest_missing=True and create_only=True.''))
                else if ingest_missing \<and> \<not> create_only
                then (case ingest_missing_loop env sys (prods_all acc) prods_missing w2 of
                        (w3, Inl e) \<Rightarrow> Some (w3, Inl e)
                      | (w3, Inr u) \<Rightarrow> Some (w3, Inr summ))
                else if \<not> ingest_missing \<and> create_only
                then (case create_only_loop env sys browse (prods_all acc) prods_missing w2 of
                        (w3, Inl e) \<Rightarrow> Some (w3, Inl e)
                      | (w3, Inr u) \<Rightarrow> Some (w3, Inr summ))
                else Some (w2, Inr summ))))"

section \<open>Example inputs\<close>

text \<open>
  An environment and a catalog entry on which the theorems below are instantiated. The
  environment converts the two numerals the entries use, and has a geometry library with
  a single geometry.
\<close>

definition demo_env :: "unit env" where
  "demo_env =
     \<lparr>py_int = (\<lambda>s. if s = ''100'' then Some 100 else if s = ''28'' then Some 28 else None),
      py_str = (\<lambda>v. ''?''),
      footprint_geo = (\<lambda>v. Inr ((), ()))\<rparr>"

definition demo_entry :: "string \<Rightarrow> string \<Rightarrow> unit dict" where
  "demo_entry title track =
     [''title'' \<mapsto> VStr title,
      ''int'' \<mapsto> VItems [(''orbitnumber'', ''100''), (''relativeorbitnumber'', track)],
      ''link'' \<mapsto> VLinks [(None, ''https://host/p''), (Some ''icon'', ''https://host/i'')],
      ''str'' \<mapsto> VItems [(''orbitdirection'', ''DESCENDING''), (''footprint'', ''POLYGON'')],
      ''date'' \<mapsto> VItems [(''beginposition'', ''2017-04-09T01:02:03.000Z''),
                           (''endposition'', ''2017-04-09T01:02:30.000Z'')]]"

text \<open>
  The date rule as the specification words it: the zone marker is the character \<open>Z\<close>
  at the end of the timestamp, and stripping it leaves every other character.
\<close>

definition spec_strip_zone_marker :: "string \<Rightarrow> string" where
  "spec_strip_zone_marker s = (if s \<noteq> [] \<and> last s = CHR ''Z'' then butlast s else s)"

text \<open>The value a call leaves under a key, if it returns.\<close>

definition result_field :: "error + 'g dict \<Rightarrow> string \<Rightarrow> 'g val option" where
  "result_field m k = (case m of Inl e \<Rightarrow> None | Inr r \<Rightarrow> r k)"

text \<open>
  Collaborators for the examples: every HEAD request of \<open>demo_sys\<close> finds the document
  missing, and nothing it calls raises.
\<close>

definition demo_sys :: "unit sys" where
  "demo_sys =
     \<lparr>rhead = (\<lambda>u. Inr 404),
      abspath = (\<lambda>p. ''/work''),
      mkdtemp = (\<lambda>ds. ''/tmp/tmpdir''),
      get_browse = (\<lambda>v. None),
      ingest = (\<lambda>i. None)\<rparr>"

definition world0 :: "unit world" where
  "world0 = \<lparr>files = Map.empty, dirs = [], trace = []\<rparr>"

definition demo_ds :: "unit ds" where
  "demo_ds = \<lparr>ds_version = ''v1.1'', ds_label = VStr ''acquisition-S1A_IW'',
              ds_location = VObj (), ds_starttime = VStr ''2017-04-09T01:02:03.000'',
              ds_endtime = VStr ''2017-04-09T01:02:30.000''\<rparr>"

definition demo_met :: "unit dict" where
  "demo_met = [''data_product_name'' \<mapsto> VStr ''acquisition-S1A_IW'',
               ''trackNumber'' \<mapsto> VInt 28]"

text \<open>
  An index that answers every HEAD request with a redirect, which \<open>requests.head\<close>
  does not follow, and an accumulator of one product.
\<close>

definition redirect_sys :: "unit sys" where
  "redirect_sys = demo_sys\<lparr>rhead := (\<lambda>u. Inr 301)\<rparr>"

definition demo_prods :: "(unit val \<times> unit info) list" where
  "demo_prods = [(VStr ''acquisition-S1A_IW'', \<lparr>info_met = demo_met, info_ds = demo_ds\<rparr>)]"


definition bucket :: "'g acc \<Rightarrow> 'g val \<Rightarrow> 'g val list" where
  "bucket acc t = (case ids_by_track acc t of None \<Rightarrow> [] | Some l \<Rightarrow> l)"

definition accumulate :: "'g val \<times> 'g info \<times> 'g val \<Rightarrow> 'g acc \<Rightarrow> 'g acc" where
  "accumulate rec acc =
     (case rec of (i, item, t) \<Rightarrow>
        acc\<lparr>prods_all := AList.update i item (prods_all acc),
            ids_by_track := (ids_by_track acc)(t \<mapsto> bucket acc t @ [i])\<rparr>)"


fun is_fetch :: "event \<Rightarrow> bool" where
  "is_fetch (Fetch q n) = True"
| "is_fetch e = False"

definition requests :: "'g world \<Rightarrow> nat" where
  "requests w = length (filter is_fetch (trace w))"












section \<open>Basic facts\<close>

lemmas massage_defs =
  massage_result_def set_int_fields_def set_links_def set_str_fields_def set_date_fields_def
  set_derived_def verify_track_def track_check_def iter_items_def iter_links_def ebind_def
  lookup_def fmt_def replace_Z_def group_at_def

lemma ebind_Inr_iff: "ebind m f = Inr y \<longleftrightarrow> (\<exists>x. m = Inr x \<and> f x = Inr y)"
  by (cases m) (auto simp: ebind_def)

lemma lookup_Inr_iff: "lookup res k = Inr v \<longleftrightarrow> res k = Some v"
  by (auto simp: lookup_def split: option.splits)

section \<open>The query window\<close>

lemma first_part_takeWhile: "first_part s = takeWhile (\<lambda>c. c \<noteq> CHR ''.'') s"
proof -
  have "split_dot s \<noteq> [] \<and> hd (split_dot s) = takeWhile (\<lambda>c. c \<noteq> CHR ''.'') s"
    by (induction s) (auto split: list.splits)
  then show ?thesis
    by (cases "split_dot s") (auto simp: first_part_def)
qed

lemma first_part_drop_suffix: "first_part (a @ CHR ''.'' # x) = first_part a"
  by (induction a) (simp_all add: first_part_takeWhile)

section \<open>The track check\<close>

lemma track_check_Inr:
  assumes "track_check k msg res = Inr r"
  shows "r = res \<and> (\<exists>n. res ''orbitNumber'' = Some (VInt n) \<and>
                    res ''trackNumber'' = Some (VInt ((n - k) mod 175 + 1)))"
proof -
  from assms obtain t orb where t: "res ''trackNumber'' = Some t"
    and orb: "res ''orbitNumber'' = Some orb"
    and c: "(case orb of
        VInt n \<Rightarrow> (if t \<noteq> VInt ((n - k) mod 175 + 1) then Inl (RuntimeError msg) else Inr res)
      | _ \<Rightarrow> Inl TypeError) = Inr r"
    unfolding track_check_def ebind_Inr_iff lookup_Inr_iff by blast
  from c show ?thesis
    using t orb by (cases orb) (auto split: if_splits)
qed

lemma verify_track_Inr: "verify_track res = Inr r \<Longrightarrow> r = res"
  by (auto simp: verify_track_def ebind_Inr_iff lookup_Inr_iff split: if_splits
      dest: track_check_Inr)

lemma verify_track_A:
  "verify_track res = Inr r \<Longrightarrow> res ''platform'' = Some (VStr ''Sentinel-1A'') \<Longrightarrow>
   \<exists>n. res ''orbitNumber'' = Some (VInt n) \<and>
       res ''trackNumber'' = Some (VInt ((n - 73) mod 175 + 1))"
  by (auto simp: verify_track_def ebind_Inr_iff lookup_Inr_iff split: if_splits
      dest: track_check_Inr)

lemma verify_track_B:
  "verify_track res = Inr r \<Longrightarrow> res ''platform'' = Some (VStr ''Sentinel-1B'') \<Longrightarrow>
   \<exists>n. res ''orbitNumber'' = Some (VInt n) \<and>
       res ''trackNumber'' = Some (VInt ((n - 27) mod 175 + 1))"
  by (auto simp: verify_track_def ebind_Inr_iff lookup_Inr_iff split: if_splits
      dest: track_check_Inr)

lemma massage_result_verified: "massage_result env res = Inr r \<Longrightarrow> verify_track r = Inr r"
  by (auto simp: massage_result_def ebind_Inr_iff dest: verify_track_Inr)

text \<open>
  C2. A record that \<open>massage_result\<close> returns with platform Sentinel-1A has an integer
  orbit number \<open>n\<close> and the track number \<open>(n - 73) mod 175 + 1\<close>; with platform
  Sentinel-1B, the track number \<open>(n - 27) mod 175 + 1\<close>. In the check that ends the
  function, a track number that differs raises the RuntimeError of that platform, and a
  record of any other platform passes unchanged whatever its numbers are.
\<close>

theorem track_number_matches_orbit:
  "(massage_result env res = Inr r \<longrightarrow>
      (r ''platform'' = Some (VStr ''Sentinel-1A'') \<longrightarrow>
         (\<exists>n. r ''orbitNumber'' = Some (VInt n) \<and>
              r ''trackNumber'' = Some (VInt ((n - 73) mod 175 + 1)))) \<and>
      (r ''platform'' = Some (VStr ''Sentinel-1B'') \<longrightarrow>
         (\<exists>n. r ''orbitNumber'' = Some (VInt n) \<and>
              r ''trackNumber'' = Some (VInt ((n - 27) mod 175 + 1)))))
   \<and> (d ''platform'' = Some (VStr ''Sentinel-1A'') \<and> d ''orbitNumber'' = Some (VInt m) \<and>
        d ''trackNumber'' = Some t \<and> t \<noteq> VInt ((m - 73) mod 175 + 1) \<longrightarrow>
        verify_track d = Inl (RuntimeError
          ''Failed to verify S1A relative orbit number and track number.''))
   \<and> (d ''platform'' = Some (VStr ''Sentinel-1B'') \<and> d ''orbitNumber'' = Some (VInt m) \<and>
        d ''trackNumber'' = Some t \<and> t \<noteq> VInt ((m - 27) mod 175 + 1) \<longrightarrow>
        verify_track d = Inl (RuntimeError
          ''Failed to verify S1B relative orbit number and track number.''))
   \<and> (d ''platform'' = Some p \<and> p \<noteq> VStr ''Sentinel-1A'' \<and> p \<noteq> VStr ''Sentinel-1B'' \<longrightarrow>
        verify_track d = Inr d)"
proof -
  have a: "massage_result env res = Inr r \<Longrightarrow> r ''platform'' = Some (VStr ''Sentinel-1A'') \<Longrightarrow>
      \<exists>n. r ''orbitNumber'' = Some (VInt n) \<and>
          r ''trackNumber'' = Some (VInt ((n - 73) mod 175 + 1))"
    using massage_result_verified verify_track_A by blast
  have b: "massage_result env res = Inr r \<Longrightarrow> r ''platform'' = Some (VStr ''Sentinel-1B'') \<Longrightarrow>
      \<exists>n. r ''orbitNumber'' = Some (VInt n) \<and>
          r ''trackNumber'' = Some (VInt ((n - 27) mod 175 + 1))"
    using massage_result_verified verify_track_B by blast
  have c: "d ''platform'' = Some (VStr ''Sentinel-1A'') \<Longrightarrow> d ''orbitNumber'' = Some (VInt m) \<Longrightarrow>
        d ''trackNumber'' = Some t \<Longrightarrow> t \<noteq> VInt ((m - 73) mod 175 + 1) \<Longrightarrow>
        verify_track d = Inl (RuntimeError
          ''Failed to verify S1A relative orbit number and track number.'')"
    by (simp add: verify_track_def track_check_def ebind_def lookup_def)
  have d: "d ''platform'' = Some (VStr ''Sentinel-1B'') \<Longrightarrow> d ''orbitNumber'' = Some (VInt m) \<Longrightarrow>
        d ''trackNumber'' = Some t \<Longrightarrow> t \<noteq> VInt ((m - 27) mod 175 + 1) \<Longrightarrow>
        verify_track d = Inl (RuntimeError
          ''Failed to verify S1B relative orbit number and track number.'')"
    by (simp add: verify_track_def track_check_def ebind_def lookup_def)
  have e: "d ''platform'' = Some p \<Longrightarrow> p \<noteq> VStr ''Sentinel-1A'' \<Longrightarrow>
        p \<noteq> VStr ''Sentinel-1B'' \<Longrightarrow> verify_track d = Inr d"
    by (simp add: verify_track_def ebind_def lookup_def)
  from a b c d e show ?thesis by blast
qed

theorem track_number_matches_orbit_witness:
  "(\<exists>r. massage_result demo_env (demo_entry ''S1A_IW_SLC__1SDV'' ''28'') = Inr r \<and>
        r ''platform'' = Some (VStr ''Sentinel-1A'') \<and>
        r ''orbitNumber'' = Some (VInt 100) \<and>
        r ''trackNumber'' = Some (VInt ((100 - 73) mod 175 + 1)))
   \<and> massage_result demo_env (demo_entry ''S1A_IW_SLC__1SDV'' ''100'')
       = Inl (RuntimeError ''Failed to verify S1A relative orbit number and track number.'')
   \<and> massage_result demo_env (demo_entry ''S1B_IW_SLC__1SDV'' ''28'')
       = Inl (RuntimeError ''Failed to verify S1B relative orbit number and track number.'')
   \<and> (\<exists>r. massage_result demo_env (demo_entry ''S1C_IW_SLC__1SDV'' ''28'') = Inr r \<and>
        r ''platform'' = Some (VStr ''Sentinel-1C''))"
proof -
  obtain r where r: "massage_result demo_env (demo_entry ''S1A_IW_SLC__1SDV'' ''28'') = Inr r"
    and p: "r ''platform'' = Some (VStr ''Sentinel-1A'')"
    and o: "r ''orbitNumber'' = Some (VInt 100)"
    by (simp add: massage_defs demo_env_def demo_entry_def)
  from track_number_matches_orbit [of demo_env "demo_entry ''S1A_IW_SLC__1SDV'' ''28''" r] r p o
  have "r ''trackNumber'' = Some (VInt ((100 - 73) mod 175 + 1))" by auto
  with r p o show ?thesis
    by (simp add: massage_defs demo_env_def demo_entry_def)
qed


text \<open>
  C9. The filter of the query is built from the text of \<open>starttime\<close> and of \<open>endtime\<close>
  before their first dot: whatever follows a dot changes neither the query nor the run
  of \<open>scrape\<close>, and a string with no dot is used whole.
\<close>

theorem query_window_drops_text_after_dot:
  "build_query starttime endtime =
     QUERY_TEMPLATE (takeWhile (\<lambda>c. c \<noteq> CHR ''.'') starttime)
                    (takeWhile (\<lambda>c. c \<noteq> CHR ''.'') endtime)
   \<and> build_query (a @ CHR ''.'' # x) (b @ CHR ''.'' # y) = build_query a b
   \<and> scrape env sys ds_es_url (a @ CHR ''.'' # x) (b @ CHR ''.'' # y) version
        ingest_missing create_only browse catalog w
     = scrape env sys ds_es_url a b version ingest_missing create_only browse catalog w
   \<and> (CHR ''.'' \<notin> set starttime \<and> CHR ''.'' \<notin> set endtime \<longrightarrow>
        build_query starttime endtime = QUERY_TEMPLATE starttime endtime)"
proof -
  have 0: "build_query starttime endtime =
     QUERY_TEMPLATE (takeWhile (\<lambda>c. c \<noteq> CHR ''.'') starttime)
                    (takeWhile (\<lambda>c. c \<noteq> CHR ''.'') endtime)"
    by (simp add: build_query_def first_part_takeWhile)
  have 1: "build_query (a @ CHR ''.'' # x) (b @ CHR ''.'' # y) = build_query a b"
    by (simp add: build_query_def first_part_drop_suffix)
  have 2: "scrape env sys ds_es_url (a @ CHR ''.'' # x) (b @ CHR ''.'' # y) version
        ingest_missing create_only browse catalog w
     = scrape env sys ds_es_url a b version ingest_missing create_only browse catalog w"
    unfolding scrape_def 1 ..
  have 3: "CHR ''.'' \<notin> set s \<Longrightarrow> first_part s = s" for s
    unfolding first_part_takeWhile by (induction s) auto
  have 4: "CHR ''.'' \<notin> set starttime \<and> CHR ''.'' \<notin> set endtime \<longrightarrow>
        build_query starttime endtime = QUERY_TEMPLATE starttime endtime"
    by (simp add: build_query_def 3)
  from 0 1 2 4 show ?thesis by blast
qed

theorem query_window_drops_text_after_dot_witness:
  "CHR ''.'' \<notin> set ''2017-04-09T00:00:00'' \<and> CHR ''.'' \<notin> set ''2017-04-10T00:00:00''
   \<and> build_query ''2017-04-09T00:00:00'' ''2017-04-10T00:00:00''
       = QUERY_TEMPLATE ''2017-04-09T00:00:00'' ''2017-04-10T00:00:00''
   \<and> build_query ''2017-04-09T00:00:00.123456Z'' ''2017-04-10T00:00:00.5Z''
       = build_query ''2017-04-09T00:00:00'' ''2017-04-10T00:00:00''"
proof -
  note t = query_window_drops_text_after_dot
    [of "''2017-04-09T00:00:00''" "''2017-04-10T00:00:00''"
        "''2017-04-09T00:00:00''" "''123456Z''" "''2017-04-10T00:00:00''" "''5Z''"]
  have a: "CHR ''.'' \<notin> set ''2017-04-09T00:00:00'' \<and> CHR ''.'' \<notin> set ''2017-04-10T00:00:00''"
    by simp
  from t [THEN conjunct2, THEN conjunct2, THEN conjunct2] a
  have b: "build_query ''2017-04-09T00:00:00'' ''2017-04-10T00:00:00''
       = QUERY_TEMPLATE ''2017-04-09T00:00:00'' ''2017-04-10T00:00:00''"
    by blast
  from t [THEN conjunct2, THEN conjunct1]
  have c: "build_query ''2017-04-09T00:00:00.123456Z'' ''2017-04-10T00:00:00.5Z''
       = build_query ''2017-04-09T00:00:00'' ''2017-04-10T00:00:00''"
    by simp
  from a b c show ?thesis by blast
qed

section \<open>The four loops of massage\_result\<close>

lemma for_each_append:
  "for_each f (xs @ ys) s = ebind (for_each f xs s) (for_each f ys)"
  by (induction xs arbitrary: s) (auto simp: ebind_def split: sum.splits)

text \<open>What a loop leaves under a key that none of its items writes.\<close>

lemma int_loop_other:
  "for_each (int_field env) items d = Inr r \<Longrightarrow> k \<notin> fst ` set items \<Longrightarrow>
   k \<noteq> ''orbitNumber'' \<Longrightarrow> k \<noteq> ''trackNumber'' \<Longrightarrow> r k = d k"
proof (induction items arbitrary: d)
  case Nil
  then show ?case by simp
next
  case (Cons x xs)
  obtain n c where x: "x = (n, c)" by (cases x)
  from Cons.prems(1) obtain d' where s: "int_field env x d = Inr d'"
    and t: "for_each (int_field env) xs d' = Inr r"
    by (auto split: sum.splits)
  from s x Cons.prems(2-) have "d' k = d k"
    by (auto split: option.splits if_splits)
  moreover from Cons.IH [OF t] Cons.prems(2-) have "r k = d' k" by simp
  ultimately show ?case by simp
qed

lemma link_loop_other:
  "for_each link_field ls d = Inr r \<Longrightarrow> Some k \<notin> fst ` set ls \<Longrightarrow>
   k \<noteq> ''download_url'' \<Longrightarrow> r k = d k"
proof (induction ls arbitrary: d)
  case Nil
  then show ?case by simp
next
  case (Cons x xs)
  obtain rel h where x: "x = (rel, h)" by (cases x)
  from Cons.prems(1) obtain d' where s: "link_field x d = Inr d'"
    and t: "for_each link_field xs d' = Inr r"
    by (auto split: sum.splits)
  from s x Cons.prems(2-) have "d' k = d k"
    by (cases rel) auto
  moreover from Cons.IH [OF t] Cons.prems(2-) have "r k = d' k" by simp
  ultimately show ?case by simp
qed

lemma str_loop_other:
  "for_each str_field items d = Inr r \<Longrightarrow> k \<notin> fst ` set items \<Longrightarrow>
   (k = ''direction'' \<longrightarrow> ''orbitdirection'' \<notin> fst ` set items) \<Longrightarrow>
   (k = ''sensingStop'' \<longrightarrow> ''endposition'' \<notin> fst ` set items) \<Longrightarrow> r k = d k"
proof (induction items arbitrary: d)
  case Nil
  then show ?case by simp
next
  case (Cons x xs)
  obtain n c where x: "x = (n, c)" by (cases x)
  from Cons.prems(1) obtain d' where s: "str_field x d = Inr d'"
    and t: "for_each str_field xs d' = Inr r"
    by (auto split: sum.splits)
  from s x Cons.prems(2-) have "d' k = d k"
    by (auto split: if_splits)
  moreover from Cons.IH [OF t] Cons.prems(2-) have "r k = d' k" by simp
  ultimately show ?case by simp
qed

lemma date_loop_other:
  "for_each date_field items d = Inr r \<Longrightarrow> k \<notin> fst ` set items \<Longrightarrow>
   (k = ''sensingStart'' \<longrightarrow> ''beginposition'' \<notin> fst ` set items) \<Longrightarrow>
   (k = ''sensingStop'' \<longrightarrow> ''endposition'' \<notin> fst ` set items) \<Longrightarrow> r k = d k"
proof (induction items arbitrary: d)
  case Nil
  then show ?case by simp
next
  case (Cons x xs)
  obtain n c where x: "x = (n, c)" by (cases x)
  from Cons.prems(1) obtain d' where s: "date_field x d = Inr d'"
    and t: "for_each date_field xs d' = Inr r"
    by (auto split: sum.splits)
  from s x Cons.prems(2-) have "d' k = d k"
    by (auto split: if_splits)
  moreover from Cons.IH [OF t] Cons.prems(2-) have "r k = d' k" by simp
  ultimately show ?case by simp
qed

text \<open>
  Under any key, a loop leaves what was there or a value of its own kind: an integer
  for the integer fields, a string for the others.
\<close>

lemma int_loop_key:
  "for_each (int_field env) items d = Inr r \<Longrightarrow> r k = d k \<or> (\<exists>n. r k = Some (VInt n))"
proof (induction items arbitrary: d)
  case Nil
  then show ?case by simp
next
  case (Cons x xs)
  obtain n c where x: "x = (n, c)" by (cases x)
  from Cons.prems(1) obtain d' where s: "int_field env x d = Inr d'"
    and t: "for_each (int_field env) xs d' = Inr r"
    by (auto split: sum.splits)
  from s x have "d' k = d k \<or> (\<exists>n. d' k = Some (VInt n))"
    by (auto split: option.splits if_splits)
  with Cons.IH [OF t] show ?case by auto
qed

lemma link_loop_key:
  "for_each link_field ls d = Inr r \<Longrightarrow> r k = d k \<or> (\<exists>h. r k = Some (VStr h))"
proof (induction ls arbitrary: d)
  case Nil
  then show ?case by simp
next
  case (Cons x xs)
  obtain rel h where x: "x = (rel, h)" by (cases x)
  from Cons.prems(1) obtain d' where s: "link_field x d = Inr d'"
    and t: "for_each link_field xs d' = Inr r"
    by (auto split: sum.splits)
  from s x have "d' k = d k \<or> (\<exists>h. d' k = Some (VStr h))"
    by (cases rel) auto
  with Cons.IH [OF t] show ?case by auto
qed

lemma str_loop_key:
  "for_each str_field items d = Inr r \<Longrightarrow> r k = d k \<or> (\<exists>h. r k = Some (VStr h))"
proof (induction items arbitrary: d)
  case Nil
  then show ?case by simp
next
  case (Cons x xs)
  obtain n c where x: "x = (n, c)" by (cases x)
  from Cons.prems(1) obtain d' where s: "str_field x d = Inr d'"
    and t: "for_each str_field xs d' = Inr r"
    by (auto split: sum.splits)
  from s x have "d' k = d k \<or> (\<exists>h. d' k = Some (VStr h))"
    by (auto split: if_splits)
  with Cons.IH [OF t] show ?case by auto
qed

lemma date_loop_key:
  "for_each date_field items d = Inr r \<Longrightarrow> r k = d k \<or> (\<exists>h. r k = Some (VStr h))"
proof (induction items arbitrary: d)
  case Nil
  then show ?case by simp
next
  case (Cons x xs)
  obtain n c where x: "x = (n, c)" by (cases x)
  from Cons.prems(1) obtain d' where s: "date_field x d = Inr d'"
    and t: "for_each date_field xs d' = Inr r"
    by (auto split: sum.splits)
  from s x have "d' k = d k \<or> (\<exists>h. d' k = Some (VStr h))"
    by (auto split: if_splits)
  with Cons.IH [OF t] show ?case by auto
qed

text \<open>The stages of a call that returns.\<close>

lemma massage_result_stages:
  assumes "massage_result env res = Inr r"
  obtains r1 r2 r3 r4 where "set_int_fields env res = Inr r1" "set_links r1 = Inr r2"
    "set_str_fields r2 = Inr r3" "set_date_fields r3 = Inr r4" "set_derived env r4 = Inr r"
    "verify_track r = Inr r"
proof -
  from assms obtain r1 r2 r3 r4 r5 where s: "set_int_fields env res = Inr r1"
    "set_links r1 = Inr r2" "set_str_fields r2 = Inr r3" "set_date_fields r3 = Inr r4"
    "set_derived env r4 = Inr r5" "verify_track r5 = Inr r"
    unfolding massage_result_def ebind_Inr_iff by blast
  from s(6) have "r = r5" by (rule verify_track_Inr)
  with s that show thesis by blast
qed

lemma set_int_fields_Inr:
  assumes "set_int_fields env d = Inr r"
  obtains items r' where "iter_items d ''int'' = Inr items"
    "for_each (int_field env) items d = Inr r'" "r = r'(''int'' := None)"
  using assms unfolding set_int_fields_def ebind_Inr_iff by auto

lemma set_links_Inr:
  assumes "set_links d = Inr r"
  obtains ls r' where "iter_links d ''link'' = Inr ls"
    "for_each link_field ls d = Inr r'" "r = r'(''link'' := None)"
  using assms unfolding set_links_def ebind_Inr_iff by auto

lemma set_str_fields_Inr:
  assumes "set_str_fields d = Inr r"
  obtains items r' where "iter_items d ''str'' = Inr items"
    "for_each str_field items d = Inr r'" "r = r'(''str'' := None)"
  using assms unfolding set_str_fields_def ebind_Inr_iff by auto

lemma set_date_fields_Inr:
  assumes "set_date_fields d = Inr r"
  obtains items r' where "iter_items d ''date'' = Inr items"
    "for_each date_field items d = Inr r'" "r = r'(''date'' := None)"
  using assms unfolding set_date_fields_def ebind_Inr_iff by auto

lemma set_derived_other:
  assumes "set_derived env d = Inr r"
    and "k \<notin> {''data_product_name'', ''archive_filename'', ''location'', ''bbox'', ''platform''}"
  shows "r k = d k"
  using assms
  by (auto simp: set_derived_def ebind_def lookup_def Let_def
      split: option.splits sum.splits val.splits prod.splits)

text \<open>What an item loop iterates when the key held a list of items at the start.\<close>

lemma iter_items_cases:
  assumes "iter_items d k = Inr items"
    and "d k = Some (VItems xs) \<or> (\<exists>n. d k = Some (VInt n)) \<or> (\<exists>h. d k = Some (VStr h))"
  shows "(d k = Some (VItems xs) \<and> items = xs) \<or> ((\<exists>h. d k = Some (VStr h)) \<and> items = [])"
  using assms by (auto simp: iter_items_def split: if_splits)

lemma iter_links_cases:
  assumes "iter_links d k = Inr ls"
    and "d k = Some (VLinks xs) \<or> (\<exists>n. d k = Some (VInt n))"
  shows "ls = xs"
  using assms by (auto simp: iter_links_def split: if_splits)

lemma set_int_fields_key:
  assumes "set_int_fields env d = Inr r" and "k \<noteq> ''int''"
  shows "r k = d k \<or> (\<exists>n. r k = Some (VInt n))"
proof -
  from assms(1) obtain items r' where f: "for_each (int_field env) items d = Inr r'"
    and r: "r = r'(''int'' := None)"
    by (rule set_int_fields_Inr)
  from r assms(2) have "r k = r' k" by simp
  with int_loop_key [OF f, of k] show ?thesis by simp
qed

lemma set_links_key:
  assumes "set_links d = Inr r" and "d ''link'' = Some (VLinks links) \<or> (\<exists>n. d ''link'' = Some (VInt n))"
    and "k \<noteq> ''link''" and "k \<noteq> ''download_url''"
  shows "r k = d k \<or> ((\<exists>h. r k = Some (VStr h)) \<and> Some k \<in> fst ` set links)"
proof -
  from assms(1) obtain ls r' where li: "iter_links d ''link'' = Inr ls"
    and lf: "for_each link_field ls d = Inr r'" and r: "r = r'(''link'' := None)"
    by (rule set_links_Inr)
  from li assms(2) have ls: "ls = links" by (rule iter_links_cases)
  from r assms(3) have e: "r k = r' k" by simp
  show ?thesis
  proof (cases "Some k \<in> fst ` set links")
    case True
    from link_loop_key [OF lf, of k] have "r' k = d k \<or> (\<exists>h. r' k = Some (VStr h))" .
    with True e show ?thesis by simp
  next
    case False
    then have "Some k \<notin> fst ` set ls" using ls by simp
    from link_loop_other [OF lf this assms(4)] e show ?thesis by simp
  qed
qed

lemma set_str_fields_key:
  assumes "set_str_fields d = Inr r"
    and "d ''str'' = Some (VItems strs) \<or> (\<exists>n. d ''str'' = Some (VInt n)) \<or> (\<exists>h. d ''str'' = Some (VStr h))"
    and "k \<noteq> ''str''" and "k \<noteq> ''direction''" and "k \<noteq> ''sensingStop''"
  shows "r k = d k \<or> ((\<exists>h. r k = Some (VStr h)) \<and> k \<in> fst ` set strs)"
proof -
  from assms(1) obtain items r' where si: "iter_items d ''str'' = Inr items"
    and sf: "for_each str_field items d = Inr r'" and r: "r = r'(''str'' := None)"
    by (rule set_str_fields_Inr)
  from iter_items_cases [OF si assms(2)] have it: "items = strs \<or> items = []" by blast
  from r assms(3) have e: "r k = r' k" by simp
  show ?thesis
  proof (cases "k \<in> fst ` set items")
    case True
    with it have m: "k \<in> fst ` set strs" by auto
    from str_loop_key [OF sf, of k] have "r' k = d k \<or> (\<exists>h. r' k = Some (VStr h))" .
    with m e show ?thesis by simp
  next
    case False
    from str_loop_other [OF sf False] assms(4,5) e show ?thesis by simp
  qed
qed

text \<open>
  A call that returns on an entry whose groups are lists has run the string loop over
  the string items, and the date loop over the date items, unless an earlier field has
  replaced the list by an empty string.
\<close>

lemma massage_result_loops:
  assumes ok: "massage_result env res = Inr r"
    and l: "res ''link'' = Some (VLinks links)"
    and s: "res ''str'' = Some (VItems strs)"
    and d: "res ''date'' = Some (VItems dates)"
  obtains r2 r3 r4 strs' dates' where
    "for_each str_field strs' r2 = Inr r3"
    "strs' = strs \<or> (strs' = [] \<and> Some ''str'' \<in> fst ` set links)"
    "for_each date_field dates' (r3(''str'' := None)) = Inr r4"
    "dates' = dates \<or>
       (dates' = [] \<and> (Some ''date'' \<in> fst ` set links \<or> ''date'' \<in> fst ` set strs))"
    "\<And>k. k \<notin> {''date'', ''data_product_name'', ''archive_filename'', ''location'',
                ''bbox'', ''platform''} \<Longrightarrow> r k = r4 k"
proof -
  from ok obtain r1 r2 r3 r4 where st1: "set_int_fields env res = Inr r1"
    and st2: "set_links r1 = Inr r2" and st3: "set_str_fields r2 = Inr r3"
    and st4: "set_date_fields r3 = Inr r4" and st5: "set_derived env r4 = Inr r"
    by (rule massage_result_stages)
  have l1: "r1 ''link'' = Some (VLinks links) \<or> (\<exists>n. r1 ''link'' = Some (VInt n))"
    using set_int_fields_key [OF st1, of "''link''"] l by simp
  have s1: "r1 ''str'' = Some (VItems strs) \<or> (\<exists>n. r1 ''str'' = Some (VInt n))"
    using set_int_fields_key [OF st1, of "''str''"] s by simp
  have d1: "r1 ''date'' = Some (VItems dates) \<or> (\<exists>n. r1 ''date'' = Some (VInt n))"
    using set_int_fields_key [OF st1, of "''date''"] d by simp
  have s2': "r2 ''str'' = r1 ''str'' \<or>
      ((\<exists>h. r2 ''str'' = Some (VStr h)) \<and> Some ''str'' \<in> fst ` set links)"
    by (rule set_links_key [OF st2 l1]) simp_all
  have d2': "r2 ''date'' = r1 ''date'' \<or>
      ((\<exists>h. r2 ''date'' = Some (VStr h)) \<and> Some ''date'' \<in> fst ` set links)"
    by (rule set_links_key [OF st2 l1]) simp_all
  from s1 s2' have s2: "r2 ''str'' = Some (VItems strs) \<or> (\<exists>n. r2 ''str'' = Some (VInt n)) \<or>
      (\<exists>h. r2 ''str'' = Some (VStr h))"
    by metis
  from st3 obtain strs' r3' where si: "iter_items r2 ''str'' = Inr strs'"
    and sf: "for_each str_field strs' r2 = Inr r3'" and r3: "r3 = r3'(''str'' := None)"
    by (rule set_str_fields_Inr)
  from iter_items_cases [OF si s2]
  have "strs' = strs \<or> ((\<exists>h. r2 ''str'' = Some (VStr h)) \<and> strs' = [])" by blast
  moreover have "Some ''str'' \<in> fst ` set links" if "r2 ''str'' = Some (VStr h)" for h
    using s1 s2' that by auto
  ultimately have c1: "strs' = strs \<or> (strs' = [] \<and> Some ''str'' \<in> fst ` set links)"
    by blast
  have d3': "r3 ''date'' = r2 ''date'' \<or>
      ((\<exists>h. r3 ''date'' = Some (VStr h)) \<and> ''date'' \<in> fst ` set strs)"
    by (rule set_str_fields_key [OF st3 s2]) simp_all
  from d1 d2' d3' have d3: "r3 ''date'' = Some (VItems dates) \<or>
      (\<exists>n. r3 ''date'' = Some (VInt n)) \<or> (\<exists>h. r3 ''date'' = Some (VStr h))"
    by metis
  from st4 obtain dates' r4' where di: "iter_items r3 ''date'' = Inr dates'"
    and df: "for_each date_field dates' r3 = Inr r4'" and r4: "r4 = r4'(''date'' := None)"
    by (rule set_date_fields_Inr)
  from iter_items_cases [OF di d3]
  have "dates' = dates \<or> ((\<exists>h. r3 ''date'' = Some (VStr h)) \<and> dates' = [])" by blast
  moreover have "Some ''date'' \<in> fst ` set links \<or> ''date'' \<in> fst ` set strs"
    if "r3 ''date'' = Some (VStr h)" for h
    using d1 d2' d3' that by auto
  ultimately have c2: "dates' = dates \<or>
       (dates' = [] \<and> (Some ''date'' \<in> fst ` set links \<or> ''date'' \<in> fst ` set strs))"
    by blast
  have fin: "r k = r4' k" if "k \<notin> {''date'', ''data_product_name'', ''archive_filename'',
      ''location'', ''bbox'', ''platform''}" for k
  proof -
    from that have "k \<noteq> ''date''" by simp
    with r4 have "r4 k = r4' k" by simp
    moreover from that have "k \<notin> {''data_product_name'', ''archive_filename'',
      ''location'', ''bbox'', ''platform''}" by simp
    from set_derived_other [OF st5 this] have "r k = r4 k" .
    ultimately show ?thesis by simp
  qed
  from df r3 have df': "for_each date_field dates' (r3'(''str'' := None)) = Inr r4'" by simp
  show thesis
    by (rule that [OF sf c1 df' c2 fin])
qed

section \<open>The orbit direction\<close>

lemma str_loop_directions:
  "for_each str_field items d = Inr r \<Longrightarrow> (''orbitdirection'', c) \<in> set items \<Longrightarrow>
   c = ''DESCENDING'' \<or> c = ''ASCENDING''"
proof (induction items arbitrary: d)
  case Nil
  then show ?case by simp
next
  case (Cons x xs)
  from Cons.prems(1) obtain d' where s: "str_field x d = Inr d'"
    and t: "for_each str_field xs d' = Inr r"
    by (auto split: sum.splits)
  show ?case
  proof (cases "x = (''orbitdirection'', c)")
    case True
    with s show ?thesis by (simp split: if_splits)
  next
    case False
    with Cons.prems(2) have "(''orbitdirection'', c) \<in> set xs" by simp
    from Cons.IH [OF t this] show ?thesis .
  qed
qed

lemma str_loop_last_direction:
  assumes "for_each str_field (pre @ (''orbitdirection'', c) # post) d = Inr r"
    and "''orbitdirection'' \<notin> fst ` set post" and "''direction'' \<notin> fst ` set post"
  shows "(c = ''DESCENDING'' \<and> r ''direction'' = Some (VStr ''dsc'')) \<or>
         (c = ''ASCENDING'' \<and> r ''direction'' = Some (VStr ''asc''))"
proof -
  from assms(1) obtain m where "for_each str_field ((''orbitdirection'', c) # post) m = Inr r"
    unfolding for_each_append ebind_Inr_iff by blast
  then obtain m' where s: "str_field (''orbitdirection'', c) m = Inr m'"
    and t: "for_each str_field post m' = Inr r"
    by (auto split: sum.splits)
  from str_loop_other [OF t assms(3)] assms(2) have e: "r ''direction'' = m' ''direction''"
    by simp
  from s have "(c = ''DESCENDING'' \<and> m' ''direction'' = Some (VStr ''dsc'')) \<or>
         (c = ''ASCENDING'' \<and> m' ''direction'' = Some (VStr ''asc''))"
    by (auto split: if_splits)
  with e show ?thesis by simp
qed

section \<open>The date fields\<close>

lemma replace_Z_only_trailing:
  "CHR ''Z'' \<notin> set (butlast c) \<Longrightarrow> replace_Z c = spec_strip_zone_marker c"
proof (induction c)
  case Nil
  then show ?case by (simp add: replace_Z_def spec_strip_zone_marker_def)
next
  case (Cons x xs)
  show ?case
  proof (cases "xs = []")
    case True
    then show ?thesis by (simp add: replace_Z_def spec_strip_zone_marker_def)
  next
    case False
    with Cons.prems have x: "x \<noteq> CHR ''Z''" and p: "CHR ''Z'' \<notin> set (butlast xs)" by auto
    from Cons.IH [OF p] False x show ?thesis
      by (auto simp: replace_Z_def spec_strip_zone_marker_def)
  qed
qed

lemma date_loop_last_begin:
  assumes "for_each date_field (pre @ (''beginposition'', c) # post) d = Inr r"
    and "''beginposition'' \<notin> fst ` set post" and "''sensingStart'' \<notin> fst ` set post"
  shows "r ''sensingStart'' = Some (VStr (replace_Z c))"
proof -
  from assms(1) obtain m where "for_each date_field ((''beginposition'', c) # post) m = Inr r"
    unfolding for_each_append ebind_Inr_iff by blast
  then obtain m' where s: "date_field (''beginposition'', c) m = Inr m'"
    and t: "for_each date_field post m' = Inr r"
    by (auto split: sum.splits)
  from date_loop_other [OF t assms(3)] assms(2) have "r ''sensingStart'' = m' ''sensingStart''"
    by simp
  with s show ?thesis by auto
qed

lemma date_loop_last_end:
  assumes "for_each date_field (pre @ (''endposition'', c) # post) d = Inr r"
    and "''endposition'' \<notin> fst ` set post" and "''sensingStop'' \<notin> fst ` set post"
  shows "r ''sensingStop'' = Some (VStr (replace_Z c))"
proof -
  from assms(1) obtain m where "for_each date_field ((''endposition'', c) # post) m = Inr r"
    unfolding for_each_append ebind_Inr_iff by blast
  then obtain m' where s: "date_field (''endposition'', c) m = Inr m'"
    and t: "for_each date_field post m' = Inr r"
    by (auto split: sum.splits)
  from date_loop_other [OF t assms(3)] assms(2) have "r ''sensingStop'' = m' ''sensingStop''"
    by simp
  with s show ?thesis by auto
qed

text \<open>
  The date loop of a call that returns runs over the date items of the entry, where no
  link relation and no string field is named \<open>date\<close>; afterwards only the derived
  fields are written.
\<close>

lemma massage_result_date_loop:
  assumes ok: "massage_result env res = Inr r"
    and l: "res ''link'' = Some (VLinks links)" and n1: "Some ''date'' \<notin> fst ` set links"
    and s: "res ''str'' = Some (VItems strs)" and n2: "''date'' \<notin> fst ` set strs"
    and d: "res ''date'' = Some (VItems dates)"
  obtains r3 r4 where "for_each date_field dates r3 = Inr r4"
    "\<And>k. k \<notin> {''date'', ''data_product_name'', ''archive_filename'', ''location'',
                ''bbox'', ''platform''} \<Longrightarrow> r k = r4 k"
proof (rule massage_result_loops [OF ok l s d])
  fix r2 r3 r4 :: "'a dict" and strs' dates'
  assume g: "for_each date_field dates' (r3(''str'' := None)) = Inr r4"
    and c2: "dates' = dates \<or>
       (dates' = [] \<and> (Some ''date'' \<in> fst ` set links \<or> ''date'' \<in> fst ` set strs))"
    and fin: "\<And>k. k \<notin> {''date'', ''data_product_name'', ''archive_filename'',
                ''location'', ''bbox'', ''platform''} \<Longrightarrow> r k = r4 k"
  from c2 n1 n2 have "dates' = dates" by blast
  with g have "for_each date_field dates (r3(''str'' := None)) = Inr r4" by simp
  from that [OF this fin] show thesis .
qed

text \<open>
  C3, as amended. The rule of the date loop stores a date field named \<open>beginposition\<close>
  as \<open>sensingStart\<close> and one named \<open>endposition\<close> as \<open>sensingStop\<close>, with every
  character \<open>Z\<close> of the content removed, and stores a date field of any other name
  under its name unchanged. Where the only \<open>Z\<close> of the content is its last character,
  removing every \<open>Z\<close> is stripping the trailing zone marker. For the record that
  \<open>massage_result\<close> returns, this gives \<open>sensingStart\<close> (and \<open>sensingStop\<close>) only on
  conditions: on an entry whose \<open>link\<close>, \<open>str\<close> and \<open>date\<close> values are lists, in which
  no link relation and no string field is named \<open>date\<close>, \<open>sensingStart\<close> is the
  content, without any \<open>Z\<close>, of the last date field named \<open>beginposition\<close>, provided
  no later date field is named \<open>beginposition\<close> or \<open>sensingStart\<close>; and likewise
  \<open>sensingStop\<close> for \<open>endposition\<close>. Nothing is promised otherwise: a later date
  field named \<open>sensingStart\<close> is stored as it is, and so is an \<open>endposition\<close> that only
  the string fields have.
\<close>

theorem date_fields_remove_every_Z:
  "date_field (''beginposition'', c) d
     = Inr (d(''sensingStart'' \<mapsto> VStr (filter (\<lambda>x. x \<noteq> CHR ''Z'') c)))
   \<and> date_field (''endposition'', c) d
     = Inr (d(''sensingStop'' \<mapsto> VStr (filter (\<lambda>x. x \<noteq> CHR ''Z'') c)))
   \<and> (n \<noteq> ''beginposition'' \<and> n \<noteq> ''endposition'' \<longrightarrow>
        date_field (n, c) d = Inr (d(n \<mapsto> VStr c)))
   \<and> (CHR ''Z'' \<notin> set (butlast c) \<longrightarrow> replace_Z c = spec_strip_zone_marker c)
   \<and> (massage_result (env :: 'g env) res = Inr r \<and>
        res ''link'' = Some (VLinks links) \<and> Some ''date'' \<notin> fst ` set links \<and>
        res ''str'' = Some (VItems strs) \<and> ''date'' \<notin> fst ` set strs \<and>
        res ''date'' = Some (VItems (pre @ (''beginposition'', c) # post)) \<and>
        ''beginposition'' \<notin> fst ` set post \<and> ''sensingStart'' \<notin> fst ` set post \<longrightarrow>
        r ''sensingStart'' = Some (VStr (filter (\<lambda>x. x \<noteq> CHR ''Z'') c)))
   \<and> (massage_result env res = Inr r \<and>
        res ''link'' = Some (VLinks links) \<and> Some ''date'' \<notin> fst ` set links \<and>
        res ''str'' = Some (VItems strs) \<and> ''date'' \<notin> fst ` set strs \<and>
        res ''date'' = Some (VItems (pre @ (''endposition'', c) # post)) \<and>
        ''endposition'' \<notin> fst ` set post \<and> ''sensingStop'' \<notin> fst ` set post \<longrightarrow>
        r ''sensingStop'' = Some (VStr (filter (\<lambda>x. x \<noteq> CHR ''Z'') c)))"
proof -
  have a: "date_field (''beginposition'', c) d
     = Inr (d(''sensingStart'' \<mapsto> VStr (filter (\<lambda>x. x \<noteq> CHR ''Z'') c)))"
    by (simp add: replace_Z_def)
  have b: "date_field (''endposition'', c) d
     = Inr (d(''sensingStop'' \<mapsto> VStr (filter (\<lambda>x. x \<noteq> CHR ''Z'') c)))"
    by (simp add: replace_Z_def)
  have c: "date_field (n, c) d = Inr (d(n \<mapsto> VStr c))"
    if "n \<noteq> ''beginposition''" "n \<noteq> ''endposition''"
    using that by simp
  have e: "r ''sensingStart'' = Some (VStr (filter (\<lambda>x. x \<noteq> CHR ''Z'') c))"
    if ok: "massage_result env res = Inr r"
      and l: "res ''link'' = Some (VLinks links)" and n1: "Some ''date'' \<notin> fst ` set links"
      and s: "res ''str'' = Some (VItems strs)" and n2: "''date'' \<notin> fst ` set strs"
      and dt: "res ''date'' = Some (VItems (pre @ (''beginposition'', c) # post))"
      and p1: "''beginposition'' \<notin> fst ` set post" and p2: "''sensingStart'' \<notin> fst ` set post"
  proof (rule massage_result_date_loop [OF ok l n1 s n2 dt])
    fix r3 r4 :: "'g dict"
    assume g: "for_each date_field (pre @ (''beginposition'', c) # post) r3 = Inr r4"
      and fin: "\<And>k. k \<notin> {''date'', ''data_product_name'', ''archive_filename'',
                ''location'', ''bbox'', ''platform''} \<Longrightarrow> r k = r4 k"
    have "r ''sensingStart'' = r4 ''sensingStart''" by (rule fin) simp
    with date_loop_last_begin [OF g p1 p2] show ?thesis by (simp add: replace_Z_def)
  qed
  have f: "r ''sensingStop'' = Some (VStr (filter (\<lambda>x. x \<noteq> CHR ''Z'') c))"
    if ok: "massage_result env res = Inr r"
      and l: "res ''link'' = Some (VLinks links)" and n1: "Some ''date'' \<notin> fst ` set links"
      and s: "res ''str'' = Some (VItems strs)" and n2: "''date'' \<notin> fst ` set strs"
      and dt: "res ''date'' = Some (VItems (pre @ (''endposition'', c) # post))"
      and p1: "''endposition'' \<notin> fst ` set post" and p2: "''sensingStop'' \<notin> fst ` set post"
  proof (rule massage_result_date_loop [OF ok l n1 s n2 dt])
    fix r3 r4 :: "'g dict"
    assume g: "for_each date_field (pre @ (''endposition'', c) # post) r3 = Inr r4"
      and fin: "\<And>k. k \<notin> {''date'', ''data_product_name'', ''archive_filename'',
                ''location'', ''bbox'', ''platform''} \<Longrightarrow> r k = r4 k"
    have "r ''sensingStop'' = r4 ''sensingStop''" by (rule fin) simp
    with date_loop_last_end [OF g p1 p2] show ?thesis by (simp add: replace_Z_def)
  qed
  show ?thesis
    by (intro conjI impI; (elim conjE)?)
      (rule a b c replace_Z_only_trailing e f; assumption)+
qed

theorem date_fields_remove_every_Z_witness:
  "CHR ''Z'' \<notin> set (butlast ''2017-04-09T01:02:03.000Z'')
   \<and> replace_Z ''2017-04-09T01:02:03.000Z'' = spec_strip_zone_marker ''2017-04-09T01:02:03.000Z''
   \<and> (\<exists>r. massage_result demo_env (demo_entry ''S1A_IW_SLC__1SDV'' ''28'') = Inr r \<and>
        r ''sensingStart'' = Some (VStr ''2017-04-09T01:02:03.000'') \<and>
        r ''sensingStop'' = Some (VStr ''2017-04-09T01:02:30.000''))"
proof -
  let ?e = "demo_entry ''S1A_IW_SLC__1SDV'' ''28''"
  let ?links = "[(None, ''https://host/p''), (Some ''icon'', ''https://host/i'')]"
  let ?strs = "[(''orbitdirection'', ''DESCENDING''), (''footprint'', ''POLYGON'')]"
  let ?b = "(''beginposition'', ''2017-04-09T01:02:03.000Z'')"
  let ?s = "(''endposition'', ''2017-04-09T01:02:30.000Z'')"
  have z: "CHR ''Z'' \<notin> set (butlast ''2017-04-09T01:02:03.000Z'')" by simp
  note t0 = date_fields_remove_every_Z [where c = "''2017-04-09T01:02:03.000Z''",
      THEN conjunct2, THEN conjunct2, THEN conjunct2, THEN conjunct1, rule_format]
  from t0 z have 1: "replace_Z ''2017-04-09T01:02:03.000Z''
      = spec_strip_zone_marker ''2017-04-09T01:02:03.000Z''" .
  obtain r where r: "massage_result demo_env ?e = Inr r"
    by (simp add: massage_defs demo_env_def demo_entry_def)
  have h: "?e ''link'' = Some (VLinks ?links)" "Some ''date'' \<notin> fst ` set ?links"
    "?e ''str'' = Some (VItems ?strs)" "''date'' \<notin> fst ` set ?strs"
    "?e ''date'' = Some (VItems ([] @ ?b # [?s]))"
    "''beginposition'' \<notin> fst ` set [?s]" "''sensingStart'' \<notin> fst ` set [?s]"
    "?e ''date'' = Some (VItems ([?b] @ ?s # []))"
    "''endposition'' \<notin> fst ` set []" "''sensingStop'' \<notin> fst ` set []"
    by (simp_all add: demo_entry_def)
  note t1 = date_fields_remove_every_Z [where env = demo_env and res = ?e and r = r
      and links = ?links and strs = ?strs and pre = "[]"
      and c = "''2017-04-09T01:02:03.000Z''" and post = "[?s]",
      THEN conjunct2, THEN conjunct2, THEN conjunct2, THEN conjunct2, THEN conjunct1,
      rule_format]
  from t1 r h have 2: "r ''sensingStart'' = Some (VStr ''2017-04-09T01:02:03.000'')" by simp
  note t2 = date_fields_remove_every_Z [where env = demo_env and res = ?e and r = r
      and links = ?links and strs = ?strs and pre = "[?b]"
      and c = "''2017-04-09T01:02:30.000Z''" and post = "[]",
      THEN conjunct2, THEN conjunct2, THEN conjunct2, THEN conjunct2, THEN conjunct2,
      rule_format]
  from t2 r h have 3: "r ''sensingStop'' = Some (VStr ''2017-04-09T01:02:30.000'')" by simp
  from z 1 r 2 3 show ?thesis by blast
qed

section \<open>create\_acq\_dataset\<close>

lemma last_path_join: "b \<noteq> [] \<Longrightarrow> last (path_join a b) = last b"
  by (simp add: path_join_def)

lemma path_join_neq:
  assumes "b \<noteq> []" "c \<noteq> []" "last b \<noteq> last c"
  shows "path_join a b \<noteq> path_join a' c"
proof
  assume "path_join a b = path_join a' c"
  then have "last (path_join a b) = last (path_join a' c)" by simp
  with assms show False by (simp add: last_path_join)
qed

lemma met_file_not_browse:
  "path_join d (i @ ''.met.json'') \<noteq> path_join d ''browse.png''"
  "path_join d (i @ ''.met.json'') \<noteq> path_join d ''browse_small.png''"
  by (rule path_join_neq; simp)+

lemma create_acq_dataset_frame:
  "create_acq_dataset env sys ds met root_ds_dir browse w = ((met', w'), res) \<Longrightarrow>
   k \<noteq> ''query_api'' \<Longrightarrow> met' k = met k"
  by (auto simp: create_acq_dataset_def Let_def
      split: option.splits val.splits if_splits)

lemma create_acq_dataset_Inr:
  assumes "create_acq_dataset env sys ds met root_ds_dir browse w = ((met', w'), Inr (i, ds_dir))"
  shows "met' = met(''query_api'' \<mapsto> VStr ''odata'') \<and> met ''data_product_name'' = Some i \<and>
         files w' (path_join ds_dir (fmt env i @ ''.met.json'')) = Some (MetJson met')"
  using assms met_file_not_browse
  by (auto simp: create_acq_dataset_def Let_def write_file_def emit_def fmt_def
      split: option.splits val.splits if_splits)


text \<open>
  C10. \<open>create_acq_dataset\<close> changes the record \<open>met\<close> of its caller only under the key
  \<open>query_api\<close>, whatever the outcome. When it returns, the record is the one passed with
  \<open>query_api\<close> set to \<open>odata\<close>, the met file holds that record (the key was added before
  the file was written), and the identifier returned is the \<open>data_product_name\<close> of the
  record.
\<close>

theorem create_acq_dataset_adds_query_api:
  "(create_acq_dataset env sys ds met root_ds_dir browse w = ((met', w'), res) \<and>
      k \<noteq> ''query_api'' \<longrightarrow> met' k = met k)
   \<and> (create_acq_dataset env sys ds met root_ds_dir browse w = ((met', w'), Inr (i, ds_dir)) \<longrightarrow>
        met' = met(''query_api'' \<mapsto> VStr ''odata'') \<and>
        met ''data_product_name'' = Some i \<and>
        files w' (path_join ds_dir (fmt env i @ ''.met.json'')) = Some (MetJson met'))"
proof (rule conjI; rule impI)
  assume "create_acq_dataset env sys ds met root_ds_dir browse w = ((met', w'), res) \<and>
      k \<noteq> ''query_api''"
  then show "met' k = met k"
    using create_acq_dataset_frame [of env sys ds met root_ds_dir browse w met' w' res k]
    by simp
next
  assume "create_acq_dataset env sys ds met root_ds_dir browse w = ((met', w'), Inr (i, ds_dir))"
  then show "met' = met(''query_api'' \<mapsto> VStr ''odata'') \<and>
        met ''data_product_name'' = Some i \<and>
        files w' (path_join ds_dir (fmt env i @ ''.met.json'')) = Some (MetJson met')"
    by (rule create_acq_dataset_Inr)
qed


theorem create_acq_dataset_adds_query_api_witness:
  "\<exists>met' w'.
     create_acq_dataset demo_env demo_sys demo_ds demo_met ''.'' False world0
       = ((met', w'), Inr (VStr ''acquisition-S1A_IW'', ''/work/acquisition-S1A_IW'')) \<and>
     met' ''query_api'' = Some (VStr ''odata'') \<and>
     met' ''trackNumber'' = Some (VInt 28) \<and>
     demo_met ''data_product_name'' = Some (VStr ''acquisition-S1A_IW'') \<and>
     files w' ''/work/acquisition-S1A_IW/acquisition-S1A_IW.met.json'' = Some (MetJson met')"
proof -
  obtain met' w' where c: "create_acq_dataset demo_env demo_sys demo_ds demo_met ''.'' False world0
       = ((met', w'), Inr (VStr ''acquisition-S1A_IW'', ''/work/acquisition-S1A_IW''))"
    by (simp add: create_acq_dataset_def demo_sys_def demo_met_def world0_def path_join_def
        write_file_def Let_def)
  note t = create_acq_dataset_adds_query_api [of demo_env demo_sys demo_ds demo_met "''.''"
      False world0 met' w' "Inr (VStr ''acquisition-S1A_IW'', ''/work/acquisition-S1A_IW'')"
      "''trackNumber''" "VStr ''acquisition-S1A_IW''" "''/work/acquisition-S1A_IW''"]
  from t [THEN conjunct1] c have 1: "met' ''trackNumber'' = demo_met ''trackNumber''" by simp
  note u = t [THEN conjunct2, rule_format, OF c]
  note 2 = u [THEN conjunct1]
  note 3 = u [THEN conjunct2, THEN conjunct1]
  note 4 = u [THEN conjunct2, THEN conjunct2]
  from 4 have 5: "files w' ''/work/acquisition-S1A_IW/acquisition-S1A_IW.met.json''
      = Some (MetJson met')"
    by (simp add: path_join_def fmt_def)
  from 2 have 6: "met' ''query_api'' = Some (VStr ''odata'')" by simp
  from 1 have 7: "met' ''trackNumber'' = Some (VInt 28)" by (simp add: demo_met_def)
  show ?thesis
  proof (intro exI conjI)
    show "create_acq_dataset demo_env demo_sys demo_ds demo_met ''.'' False world0
       = ((met', w'), Inr (VStr ''acquisition-S1A_IW'', ''/work/acquisition-S1A_IW''))"
      by (rule c)
    show "met' ''query_api'' = Some (VStr ''odata'')" by (rule 6)
    show "met' ''trackNumber'' = Some (VInt 28)" by (rule 7)
    show "demo_met ''data_product_name'' = Some (VStr ''acquisition-S1A_IW'')" by (rule 3)
    show "files w' ''/work/acquisition-S1A_IW/acquisition-S1A_IW.met.json''
      = Some (MetJson met')" by (rule 5)
  qed
qed

section \<open>The existence checks\<close>

lemma check_exists_partition:
  assumes "\<forall>k \<in> fst ` set pa. rhead sys (u @ ''/'' @ fmt env k) = Inr 200 \<or>
                            rhead sys (u @ ''/'' @ fmt env k) = Inr 404"
  shows "\<exists>w' f m. check_exists env sys u pa (f0, m0) w = (w', Inr (f, m)) \<and>
           set f \<union> set m = set f0 \<union> set m0 \<union> fst ` set pa \<and>
           (distinct (map fst pa) \<and> set f0 \<inter> set m0 = {} \<and>
            (set f0 \<union> set m0) \<inter> fst ` set pa = {} \<longrightarrow> set f \<inter> set m = {})"
  using assms
proof (induction pa arbitrary: f0 m0 w)
  case Nil
  then show ?case by simp
next
  case (Cons x xs)
  obtain k v where x: "x = (k, v)" by (cases x)
  from Cons.prems have rest: "\<forall>k \<in> fst ` set xs. rhead sys (u @ ''/'' @ fmt env k) = Inr 200 \<or>
                            rhead sys (u @ ''/'' @ fmt env k) = Inr 404"
    by simp
  define w1 where "w1 = emit (Probe (u @ ''/'' @ fmt env k)) w"
  have step200: "check_exists env sys u (x # xs) (f0, m0) w
      = check_exists env sys u xs (f0 @ [k], m0) w1"
    if "rhead sys (u @ ''/'' @ fmt env k) = Inr 200"
    using that x by (simp add: Let_def w1_def)
  have step404: "check_exists env sys u (x # xs) (f0, m0) w
      = check_exists env sys u xs (f0, m0 @ [k]) w1"
    if "rhead sys (u @ ''/'' @ fmt env k) = Inr 404"
    using that x by (simp add: Let_def w1_def)
  have img: "fst ` set (x # xs) = insert k (fst ` set xs)" using x by simp
  have dis: "distinct (map fst (x # xs)) \<longleftrightarrow> k \<notin> fst ` set xs \<and> distinct (map fst xs)"
    using x by simp
  from Cons.prems x have "rhead sys (u @ ''/'' @ fmt env k) = Inr 200 \<or>
      rhead sys (u @ ''/'' @ fmt env k) = Inr 404"
    by simp
  then show ?case
  proof
    assume c: "rhead sys (u @ ''/'' @ fmt env k) = Inr 200"
    from Cons.IH [OF rest, of "f0 @ [k]" m0 w1]
    obtain w' f m where
      r: "check_exists env sys u xs (f0 @ [k], m0) w1 = (w', Inr (f, m))"
      and s: "set f \<union> set m = set (f0 @ [k]) \<union> set m0 \<union> fst ` set xs"
      and d: "distinct (map fst xs) \<and> set (f0 @ [k]) \<inter> set m0 = {} \<and>
            (set (f0 @ [k]) \<union> set m0) \<inter> fst ` set xs = {} \<longrightarrow> set f \<inter> set m = {}"
      by (elim exE conjE) (rule that; assumption)
    have 1: "check_exists env sys u (x # xs) (f0, m0) w = (w', Inr (f, m))"
      unfolding step200 [OF c] by (rule r)
    have 2: "set f \<union> set m = set f0 \<union> set m0 \<union> fst ` set (x # xs)"
      unfolding img using s by auto
    have 3: "distinct (map fst (x # xs)) \<and> set f0 \<inter> set m0 = {} \<and>
            (set f0 \<union> set m0) \<inter> fst ` set (x # xs) = {} \<longrightarrow> set f \<inter> set m = {}"
      unfolding img dis using d by auto
    from 1 2 3 show ?thesis by (intro exI conjI)
  next
    assume c: "rhead sys (u @ ''/'' @ fmt env k) = Inr 404"
    from Cons.IH [OF rest, of f0 "m0 @ [k]" w1]
    obtain w' f m where
      r: "check_exists env sys u xs (f0, m0 @ [k]) w1 = (w', Inr (f, m))"
      and s: "set f \<union> set m = set f0 \<union> set (m0 @ [k]) \<union> fst ` set xs"
      and d: "distinct (map fst xs) \<and> set f0 \<inter> set (m0 @ [k]) = {} \<and>
            (set f0 \<union> set (m0 @ [k])) \<inter> fst ` set xs = {} \<longrightarrow> set f \<inter> set m = {}"
      by (elim exE conjE) (rule that; assumption)
    have 1: "check_exists env sys u (x # xs) (f0, m0) w = (w', Inr (f, m))"
      unfolding step404 [OF c] by (rule r)
    have 2: "set f \<union> set m = set f0 \<union> set m0 \<union> fst ` set (x # xs)"
      unfolding img using s by auto
    have 3: "distinct (map fst (x # xs)) \<and> set f0 \<inter> set m0 = {} \<and>
            (set f0 \<union> set m0) \<inter> fst ` set (x # xs) = {} \<longrightarrow> set f \<inter> set m = {}"
      unfolding img dis using d by auto
    from 1 2 3 show ?thesis by (intro exI conjI)
  qed
qed

text \<open>
  C7. Where every probe answers 200 or 404, the two lists partition the identifiers
  (\<open>check_exists_partition\<close>). A probe that answers with another status aborts the
  reconciliation only if the status is one that \<open>raise_for_status\<close> raises for: on the
  status 301 the loop goes on, the identifier is in neither list, and no error is
  raised.
\<close>

theorem probe_redirect_is_not_fatal:
  "check_exists demo_env redirect_sys ''http://grq/idx'' demo_prods ([], []) world0
     = (world0\<lparr>trace := [Probe ''http://grq/idx/acquisition-S1A_IW'']\<rparr>, Inr ([], []))"
  by (simp add: demo_prods_def redirect_sys_def demo_sys_def world0_def emit_def fmt_def
      raise_for_status_def Let_def)

section \<open>The accumulator\<close>









section \<open>A page with a single entry\<close>

text \<open>
  The trace and the result of a page, and of the loop, depend on the world they start in
  only through its trace.
\<close>

lemma page_trace:
  "trace w = trace w' \<Longrightarrow>
   apfst trace (page env version r acc w) = apfst trace (page env version r acc w')"
  by (simp add: page_def Let_def write_file_def emit_def
      split: option.splits sum.splits)

lemma query_loop_trace:
  "trace w = trace w' \<Longrightarrow>
   map_option (apfst trace) (query_loop env q version rs acc w)
     = map_option (apfst trace) (query_loop env q version rs acc w')"
proof (induction rs arbitrary: acc w w')
  case Nil
  then show ?case by simp
next
  case (Cons r rs)
  define v where "v = emit (Fetch q (offset acc)) w"
  define v' where "v' = emit (Fetch q (offset acc)) w'"
  from Cons.prems have t: "trace v = trace v'" by (simp add: v_def v'_def emit_def)
  obtain w1 x where p: "page env version r acc v = (w1, x)" by (cases "page env version r acc v")
  obtain w1' x' where p': "page env version r acc v' = (w1', x')"
    by (cases "page env version r acc v'")
  from page_trace [OF t, of env version r acc] p p'
  have e: "trace w1 = trace w1'" "x = x'" by simp_all
  show ?case
  proof (cases x)
    case (Inl err)
    from p Inl have p1: "page env version r acc v = (w1, Inl err)" by simp
    from p' e(2) Inl have p2: "page env version r acc v' = (w1', Inl err)" by simp
    show ?thesis
      by (simp add: v_def [symmetric] v'_def [symmetric] p1 p2 e(1))
  next
    case (Inr y)
    obtain acc1 b where y: "y = (acc1, b)" by (cases y)
    from p Inr y have p1: "page env version r acc v = (w1, Inr (acc1, b))" by simp
    from p' e(2) Inr y have p2: "page env version r acc v' = (w1', Inr (acc1, b))" by simp
    show ?thesis
    proof (cases b)
      case True
      with Cons.IH [OF e(1), of acc1] show ?thesis
        by (simp add: v_def [symmetric] v'_def [symmetric] p1 p2)
    next
      case False
      then show ?thesis
        by (simp add: v_def [symmetric] v'_def [symmetric] p1 p2 e(1))
    qed
  qed
qed

lemma page_lone:
  "apfst trace
     (page env version (r\<lparr>body := Inr (fd\<lparr>feed_entry := Some (Lone e)\<rparr>)\<rparr>) acc w)
   = apfst trace
     (page env version (r\<lparr>body := Inr (fd\<lparr>feed_entry := Some (Many [e])\<rparr>)\<rparr>) acc w)"
  by (simp add: page_def Let_def write_file_def emit_def read_total_def
      split: option.splits sum.splits)

lemma query_loop_head:
  assumes "apfst trace (page env version r acc (emit (Fetch q (offset acc)) w))
         = apfst trace (page env version r' acc (emit (Fetch q (offset acc)) w))"
  shows "map_option (apfst trace) (query_loop env q version (r # rs) acc w)
       = map_option (apfst trace) (query_loop env q version (r' # rs) acc w)"
proof -
  define v where "v = emit (Fetch q (offset acc)) w"
  obtain w1 x where p: "page env version r acc v = (w1, x)" by (cases "page env version r acc v")
  obtain w1' x' where p': "page env version r' acc v = (w1', x')"
    by (cases "page env version r' acc v")
  from assms p p' have e: "trace w1 = trace w1'" "x = x'" by (simp_all add: v_def)
  show ?thesis
  proof (cases x)
    case (Inl err)
    from p Inl have p1: "page env version r acc v = (w1, Inl err)" by simp
    from p' e(2) Inl have p2: "page env version r' acc v = (w1', Inl err)" by simp
    show ?thesis
      by (simp add: v_def [symmetric] p1 p2 e(1))
  next
    case (Inr y)
    obtain acc1 b where y: "y = (acc1, b)" by (cases y)
    from p Inr y have p1: "page env version r acc v = (w1, Inr (acc1, b))" by simp
    from p' e(2) Inr y have p2: "page env version r' acc v = (w1', Inr (acc1, b))" by simp
    show ?thesis
    proof (cases b)
      case True
      with query_loop_trace [OF e(1), of env q version rs acc1] show ?thesis
        by (simp add: v_def [symmetric] p1 p2)
    next
      case False
      then show ?thesis
        by (simp add: v_def [symmetric] p1 p2 e(1))
    qed
  qed
qed

lemma query_loop_prefix:
  assumes "\<And>acc w. map_option (apfst trace) (query_loop env q version rs acc w)
                  = map_option (apfst trace) (query_loop env q version rs' acc w)"
  shows "map_option (apfst trace) (query_loop env q version (ps @ rs) acc w)
       = map_option (apfst trace) (query_loop env q version (ps @ rs') acc w)"
proof (induction ps arbitrary: acc w)
  case Nil
  show ?case unfolding append_Nil by (rule assms)
next
  case (Cons p ps)
  show ?case
    by (simp add: Cons.IH split: prod.splits sum.splits)
qed

text \<open>
  C6. A page whose single entry arrives as a lone object is processed as the page whose
  entries are the list of that one entry: the page, and the loop over any catalog that
  contains it, end with the same exception or with the same accumulator and buckets, and
  make the same calls. (The file \<open>res.json\<close> differs: it holds the entries as they
  arrived.)
\<close>

theorem lone_entry_page_as_singleton_list:
  "apfst trace
     (page env version (r\<lparr>body := Inr (fd\<lparr>feed_entry := Some (Lone e)\<rparr>)\<rparr>) acc w)
   = apfst trace
     (page env version (r\<lparr>body := Inr (fd\<lparr>feed_entry := Some (Many [e])\<rparr>)\<rparr>) acc w)
   \<and> map_option (apfst trace)
       (query_loop env q version
          (ps @ r\<lparr>body := Inr (fd\<lparr>feed_entry := Some (Lone e)\<rparr>)\<rparr> # rs) acc w)
     = map_option (apfst trace)
       (query_loop env q version
          (ps @ r\<lparr>body := Inr (fd\<lparr>feed_entry := Some (Many [e])\<rparr>)\<rparr> # rs) acc w)"
proof (rule conjI)
  show "apfst trace
     (page env version (r\<lparr>body := Inr (fd\<lparr>feed_entry := Some (Lone e)\<rparr>)\<rparr>) acc w)
   = apfst trace
     (page env version (r\<lparr>body := Inr (fd\<lparr>feed_entry := Some (Many [e])\<rparr>)\<rparr>) acc w)"
    by (rule page_lone)
  show "map_option (apfst trace)
       (query_loop env q version
          (ps @ r\<lparr>body := Inr (fd\<lparr>feed_entry := Some (Lone e)\<rparr>)\<rparr> # rs) acc w)
     = map_option (apfst trace)
       (query_loop env q version
          (ps @ r\<lparr>body := Inr (fd\<lparr>feed_entry := Some (Many [e])\<rparr>)\<rparr> # rs) acc w)"
    by (rule query_loop_prefix, rule query_loop_head, rule page_lone)
qed

section \<open>The pagination loop\<close>




lemma page_requests:
  "page env version r acc w = (w1, x) \<Longrightarrow> requests w1 = requests w"
  by (auto simp: page_def Let_def requests_def emit_def write_file_def
      split: option.splits sum.splits)

















lemma foldl_accumulate_append:
  "foldl (\<lambda>a rec. accumulate rec a) acc (xs @ ys)
     = foldl (\<lambda>a rec. accumulate rec a) (foldl (\<lambda>a rec. accumulate rec a) acc xs) ys"
  by simp



















lemma str_loop_raises_iff:
  "(\<exists>e. for_each str_field items d = Inl e) \<longleftrightarrow>
   (\<exists>x. (''orbitdirection'', x) \<in> set items \<and> x \<noteq> ''DESCENDING'' \<and> x \<noteq> ''ASCENDING'')"
proof
  assume "\<exists>e. for_each str_field items d = Inl e"
  then show "\<exists>x. (''orbitdirection'', x) \<in> set items \<and> x \<noteq> ''DESCENDING'' \<and> x \<noteq> ''ASCENDING''"
  proof (induction items arbitrary: d)
    case Nil
    then show ?case by simp
  next
    case (Cons it items)
    obtain n c where it: "it = (n, c)" by (cases it)
    show ?case
    proof (cases "str_field it d")
      case (Inl e)
      with it have f: "str_field (n, c) d = Inl e" by simp
      have 1: "n = ''orbitdirection''"
        using f by (cases "n = ''orbitdirection''") (simp_all split: if_splits)
      have 2: "c \<noteq> ''DESCENDING''"
        using f 1 by (cases "c = ''DESCENDING''") simp_all
      have 3: "c \<noteq> ''ASCENDING''"
        using f 1 by (cases "c = ''ASCENDING''") simp_all
      have mem: "(''orbitdirection'', c) \<in> set (it # items)"
        unfolding it 1 by simp
      from mem 2 3 have "(''orbitdirection'', c) \<in> set (it # items) \<and> c \<noteq> ''DESCENDING'' \<and>
          c \<noteq> ''ASCENDING''"
        by (intro conjI)
      then show ?thesis by (rule exI [of _ c])
    next
      case (Inr d')
      with Cons.prems have "\<exists>e. for_each str_field items d' = Inl e" by simp
      from Cons.IH [OF this] obtain x where mx: "(''orbitdirection'', x) \<in> set items"
        and bx: "x \<noteq> ''DESCENDING''" "x \<noteq> ''ASCENDING''"
        by (elim exE conjE) (rule that; assumption)
      from mx have mem: "(''orbitdirection'', x) \<in> set (it # items)" by simp
      from mem bx have "(''orbitdirection'', x) \<in> set (it # items) \<and> x \<noteq> ''DESCENDING'' \<and>
          x \<noteq> ''ASCENDING''"
        by (intro conjI)
      then show ?thesis by (rule exI [of _ x])
    qed
  qed
next
  assume "\<exists>x. (''orbitdirection'', x) \<in> set items \<and> x \<noteq> ''DESCENDING'' \<and> x \<noteq> ''ASCENDING''"
  then obtain x where m: "(''orbitdirection'', x) \<in> set items"
    and bad: "x \<noteq> ''DESCENDING''" "x \<noteq> ''ASCENDING''"
    by (elim exE conjE) (rule that; assumption)
  show "\<exists>e. for_each str_field items d = Inl e"
  proof (cases "for_each str_field items d")
    case (Inl e)
    then show ?thesis by (rule exI [of _ e])
  next
    case (Inr r)
    from str_loop_directions [OF Inr m] bad show ?thesis by simp
  qed
qed

text \<open>
  C4, as amended. The rule of the string loop maps an \<open>orbitdirection\<close> field with the
  content DESCENDING to \<open>direction = dsc\<close>, with the content ASCENDING to
  \<open>direction = asc\<close>, and raises the RuntimeError that quotes the content on any other;
  the string loop over a list of items raises exactly when the list has an
  \<open>orbitdirection\<close> item of another content. \<open>massage_result\<close> as a whole needs
  more: on an entry whose \<open>link\<close>, \<open>str\<close> and \<open>date\<close> values are lists and whose
  links have no relation named \<open>str\<close>, it raises if a string field is an
  \<open>orbitdirection\<close> of another content; and when it returns on such an entry, the
  record has the direction of the last \<open>orbitdirection\<close> field provided no later
  string field and no date field is itself named \<open>direction\<close>.
\<close>

theorem orbit_direction_mapping:
  "str_field (''orbitdirection'', ''DESCENDING'') d = Inr (d(''direction'' \<mapsto> VStr ''dsc''))
   \<and> str_field (''orbitdirection'', ''ASCENDING'') d = Inr (d(''direction'' \<mapsto> VStr ''asc''))
   \<and> (c \<noteq> ''DESCENDING'' \<and> c \<noteq> ''ASCENDING'' \<longrightarrow>
        str_field (''orbitdirection'', c) d
          = Inl (RuntimeError (''Failed to recognize orbit direction: '' @ c)))
   \<and> (res ''link'' = Some (VLinks links) \<and> Some ''str'' \<notin> fst ` set links \<and>
        res ''str'' = Some (VItems strs) \<and> res ''date'' = Some (VItems dates) \<and>
        (''orbitdirection'', c) \<in> set strs \<and> c \<noteq> ''DESCENDING'' \<and> c \<noteq> ''ASCENDING'' \<longrightarrow>
        (\<exists>e. massage_result (env :: 'g env) res = Inl e))
   \<and> (massage_result env res = Inr r \<and>
        res ''link'' = Some (VLinks links) \<and> Some ''str'' \<notin> fst ` set links \<and>
        res ''str'' = Some (VItems (pre @ (''orbitdirection'', c) # post)) \<and>
        ''orbitdirection'' \<notin> fst ` set post \<and> ''direction'' \<notin> fst ` set post \<and>
        res ''date'' = Some (VItems dates) \<and> ''direction'' \<notin> fst ` set dates \<longrightarrow>
        (c = ''DESCENDING'' \<and> r ''direction'' = Some (VStr ''dsc'')) \<or>
        (c = ''ASCENDING'' \<and> r ''direction'' = Some (VStr ''asc'')))
   \<and> ((\<exists>e. for_each str_field items d = Inl e) \<longleftrightarrow>
        (\<exists>x. (''orbitdirection'', x) \<in> set items \<and> x \<noteq> ''DESCENDING'' \<and> x \<noteq> ''ASCENDING''))"
proof -
  have a: "str_field (''orbitdirection'', ''DESCENDING'') d
      = Inr (d(''direction'' \<mapsto> VStr ''dsc''))"
    by simp
  have b: "str_field (''orbitdirection'', ''ASCENDING'') d
      = Inr (d(''direction'' \<mapsto> VStr ''asc''))"
    by simp
  have c: "str_field (''orbitdirection'', c) d
          = Inl (RuntimeError (''Failed to recognize orbit direction: '' @ c))"
    if "c \<noteq> ''DESCENDING''" "c \<noteq> ''ASCENDING''"
    using that by simp
  have d: "\<exists>e. massage_result env res = Inl e"
    if l: "res ''link'' = Some (VLinks links)" and n: "Some ''str'' \<notin> fst ` set links"
      and s: "res ''str'' = Some (VItems strs)" and dt: "res ''date'' = Some (VItems dates)"
      and m: "(''orbitdirection'', c) \<in> set strs"
      and bad: "c \<noteq> ''DESCENDING''" "c \<noteq> ''ASCENDING''"
  proof (cases "massage_result env res")
    case (Inl e)
    then show ?thesis by blast
  next
    case (Inr r)
    show ?thesis
    proof (rule massage_result_loops [OF Inr l s dt])
      fix r2 r3 :: "'g dict" and strs'
      assume f: "for_each str_field strs' r2 = Inr r3"
        and c1: "strs' = strs \<or> (strs' = [] \<and> Some ''str'' \<in> fst ` set links)"
      from c1 n have "strs' = strs" by blast
      with f have "for_each str_field strs r2 = Inr r3" by simp
      from str_loop_directions [OF this m] bad show ?thesis by simp
    qed
  qed
  have e: "(c = ''DESCENDING'' \<and> r ''direction'' = Some (VStr ''dsc'')) \<or>
        (c = ''ASCENDING'' \<and> r ''direction'' = Some (VStr ''asc''))"
    if ok: "massage_result env res = Inr r"
      and l: "res ''link'' = Some (VLinks links)" and n: "Some ''str'' \<notin> fst ` set links"
      and s: "res ''str'' = Some (VItems (pre @ (''orbitdirection'', c) # post))"
      and p1: "''orbitdirection'' \<notin> fst ` set post" and p2: "''direction'' \<notin> fst ` set post"
      and dt: "res ''date'' = Some (VItems dates)" and p3: "''direction'' \<notin> fst ` set dates"
  proof (rule massage_result_loops [OF ok l s dt])
    fix r2 r3 r4 :: "'g dict" and strs' dates'
    assume f: "for_each str_field strs' r2 = Inr r3"
      and c1: "strs' = pre @ (''orbitdirection'', c) # post
               \<or> (strs' = [] \<and> Some ''str'' \<in> fst ` set links)"
      and g: "for_each date_field dates' (r3(''str'' := None)) = Inr r4"
      and c2: "dates' = dates \<or> (dates' = [] \<and> (Some ''date'' \<in> fst ` set links \<or>
                ''date'' \<in> fst ` set (pre @ (''orbitdirection'', c) # post)))"
      and fin: "\<And>k. k \<notin> {''date'', ''data_product_name'', ''archive_filename'',
                ''location'', ''bbox'', ''platform''} \<Longrightarrow> r k = r4 k"
    from c1 n have "strs' = pre @ (''orbitdirection'', c) # post" by blast
    with f have f': "for_each str_field (pre @ (''orbitdirection'', c) # post) r2 = Inr r3"
      by simp
    note dir3 = str_loop_last_direction [OF f' p1 p2]
    from c2 p3 have nd: "''direction'' \<notin> fst ` set dates'" by (elim disjE) simp_all
    from date_loop_other [OF g nd] have "r4 ''direction'' = (r3(''str'' := None)) ''direction''"
      by simp
    then have "r4 ''direction'' = r3 ''direction''" by simp
    moreover have "r ''direction'' = r4 ''direction''" by (rule fin) simp
    ultimately show ?thesis using dir3 by simp
  qed
  note g = str_loop_raises_iff [of items d]
  show ?thesis
    by (intro conjI impI; (elim conjE)?) (rule g | (rule a b c d e; assumption))+
qed



theorem orbit_direction_mapping_witness:
  "(\<exists>r. massage_result demo_env (demo_entry ''S1A_IW_SLC__1SDV'' ''28'') = Inr r \<and>
        r ''direction'' = Some (VStr ''dsc''))
   \<and> (\<exists>e. massage_result demo_env
          ((demo_entry ''S1A_IW_SLC__1SDV'' ''28'')
             (''str'' \<mapsto> VItems [(''orbitdirection'', ''SIDEWAYS''), (''footprint'', ''POLYGON'')]))
        = Inl e)"
proof -
  let ?e = "demo_entry ''S1A_IW_SLC__1SDV'' ''28''"
  let ?links = "[(None, ''https://host/p''), (Some ''icon'', ''https://host/i'')]"
  let ?dates = "[(''beginposition'', ''2017-04-09T01:02:03.000Z''),
                 (''endposition'', ''2017-04-09T01:02:30.000Z'')]"
  let ?b = "?e(''str'' \<mapsto> VItems [(''orbitdirection'', ''SIDEWAYS''), (''footprint'', ''POLYGON'')])"
  obtain r where r: "massage_result demo_env ?e = Inr r"
    by (simp add: massage_defs demo_env_def demo_entry_def)
  have h: "?e ''link'' = Some (VLinks ?links)" "Some ''str'' \<notin> fst ` set ?links"
    "?e ''str'' = Some (VItems ([] @ (''orbitdirection'', ''DESCENDING'') # [(''footprint'', ''POLYGON'')]))"
    "''orbitdirection'' \<notin> fst ` set [(''footprint'', ''POLYGON'')]"
    "''direction'' \<notin> fst ` set [(''footprint'', ''POLYGON'')]"
    "?e ''date'' = Some (VItems ?dates)" "''direction'' \<notin> fst ` set ?dates"
    by (simp_all add: demo_entry_def)
  have g: "?b ''link'' = Some (VLinks ?links)"
    "?b ''str'' = Some (VItems [(''orbitdirection'', ''SIDEWAYS''), (''footprint'', ''POLYGON'')])"
    "?b ''date'' = Some (VItems ?dates)"
    "(''orbitdirection'', ''SIDEWAYS'') \<in> set [(''orbitdirection'', ''SIDEWAYS''), (''footprint'', ''POLYGON'')]"
    "''SIDEWAYS'' \<noteq> ''DESCENDING''" "''SIDEWAYS'' \<noteq> ''ASCENDING''"
    by (simp_all add: demo_entry_def)
  note t1 = orbit_direction_mapping [where env = demo_env and res = ?e and r = r
      and links = ?links and pre = "[]" and c = "''DESCENDING''"
      and post = "[(''footprint'', ''POLYGON'')]" and dates = ?dates,
      THEN conjunct2, THEN conjunct2, THEN conjunct2, THEN conjunct2, THEN conjunct1,
      rule_format]
  from t1 r h have "r ''direction'' = Some (VStr ''dsc'')" by simp
  with r have 1: "\<exists>r. massage_result demo_env ?e = Inr r \<and> r ''direction'' = Some (VStr ''dsc'')"
    by blast
  note t2 = orbit_direction_mapping [where env = demo_env and res = ?b
      and links = ?links and c = "''SIDEWAYS''"
      and strs = "[(''orbitdirection'', ''SIDEWAYS''), (''footprint'', ''POLYGON'')]"
      and dates = ?dates,
      THEN conjunct2, THEN conjunct2, THEN conjunct2, THEN conjunct1, rule_format]
  from t2 g h(2) have 2: "\<exists>e. massage_result demo_env ?b = Inl e" by simp
  from 1 2 show ?thesis by (rule conjI)
qed


text \<open>
  The claim as the specification states it, for every entry, fails on two entries. In
  the first a link has the relation \<open>str\<close> and an empty target: line 80 stores the empty
  string under \<open>str\<close>, line 86 iterates it, and the \<open>orbitdirection\<close> field SIDEWAYS is
  never looked at, so nothing is raised and the record has no direction. In the second a
  later string field is itself named \<open>direction\<close> and replaces \<open>dsc\<close>.
\<close>

theorem orbit_direction_counterexample:
  "result_field
     (massage_result demo_env
        ((demo_entry ''S1A_IW_SLC__1SDV'' ''28'')
           (''footprint'' \<mapsto> VStr ''POLYGON'',
            ''link'' \<mapsto> VLinks [(None, ''https://host/p''), (Some ''str'', [])],
            ''str'' \<mapsto> VItems [(''orbitdirection'', ''SIDEWAYS'')])))
     ''platform'' = Some (VStr ''Sentinel-1A'')
   \<and> result_field
     (massage_result demo_env
        ((demo_entry ''S1A_IW_SLC__1SDV'' ''28'')
           (''footprint'' \<mapsto> VStr ''POLYGON'',
            ''link'' \<mapsto> VLinks [(None, ''https://host/p''), (Some ''str'', [])],
            ''str'' \<mapsto> VItems [(''orbitdirection'', ''SIDEWAYS'')])))
     ''direction'' = None
   \<and> result_field
     (massage_result demo_env
        ((demo_entry ''S1A_IW_SLC__1SDV'' ''28'')
           (''str'' \<mapsto> VItems [(''orbitdirection'', ''DESCENDING''), (''footprint'', ''POLYGON''),
                               (''direction'', ''north'')])))
     ''direction'' = Some (VStr ''north'')"
  by (simp add: result_field_def massage_defs demo_env_def demo_entry_def)

text \<open>
  The claim as the specification states it fails on three entries. In the first the
  timestamp has a \<open>Z\<close> before its end, and the normalizer removes that one too. In the
  second a later date field is itself named \<open>sensingStart\<close>: line 99 stores it as it
  is, trailing \<open>Z\<close> included. The third has its \<open>endposition\<close> among the string
  fields only: line 91 stores it as \<open>sensingStop\<close> as it is.
\<close>

theorem date_fields_counterexample:
  "result_field
     (massage_result demo_env
        ((demo_entry ''S1A_IW_SLC__1SDV'' ''28'')
           (''date'' \<mapsto> VItems [(''beginposition'', ''2017-04-09TZ01:02:03Z''),
                                (''endposition'', ''2017-04-09T01:02:30Z'')])))
     ''sensingStart'' = Some (VStr ''2017-04-09T01:02:03'')
   \<and> spec_strip_zone_marker ''2017-04-09TZ01:02:03Z'' = ''2017-04-09TZ01:02:03''
   \<and> result_field
     (massage_result demo_env
        ((demo_entry ''S1A_IW_SLC__1SDV'' ''28'')
           (''date'' \<mapsto> VItems [(''beginposition'', ''2017-04-09TZ01:02:03Z''),
                                (''endposition'', ''2017-04-09T01:02:30Z'')])))
     ''sensingStart'' \<noteq> Some (VStr (spec_strip_zone_marker ''2017-04-09TZ01:02:03Z''))
   \<and> result_field
     (massage_result demo_env
        ((demo_entry ''S1A_IW_SLC__1SDV'' ''28'')
           (''date'' \<mapsto> VItems [(''beginposition'', ''2017-04-09T01:02:03Z''),
                                (''endposition'', ''2017-04-09T01:02:30Z''),
                                (''sensingStart'', ''2017-04-09T01:02:03Z'')])))
     ''sensingStart'' = Some (VStr ''2017-04-09T01:02:03Z'')
   \<and> result_field
     (massage_result demo_env
        ((demo_entry ''S1A_IW_SLC__1SDV'' ''28'')
           (''str'' \<mapsto> VItems [(''orbitdirection'', ''DESCENDING''), (''footprint'', ''POLYGON''),
                               (''endposition'', ''2017-04-09T01:02:30Z'')],
            ''date'' \<mapsto> VItems [(''beginposition'', ''2017-04-09T01:02:03Z'')])))
     ''sensingStop'' = Some (VStr ''2017-04-09T01:02:30Z'')"
proof -
  have 1: "result_field
     (massage_result demo_env
        ((demo_entry ''S1A_IW_SLC__1SDV'' ''28'')
           (''date'' \<mapsto> VItems [(''beginposition'', ''2017-04-09TZ01:02:03Z''),
                                (''endposition'', ''2017-04-09T01:02:30Z'')])))
     ''sensingStart'' = Some (VStr ''2017-04-09T01:02:03'')"
    by (simp add: result_field_def massage_defs demo_env_def demo_entry_def)
  have 2: "spec_strip_zone_marker ''2017-04-09TZ01:02:03Z'' = ''2017-04-09TZ01:02:03''"
    by (simp add: spec_strip_zone_marker_def)
  have 3: "result_field
     (massage_result demo_env
        ((demo_entry ''S1A_IW_SLC__1SDV'' ''28'')
           (''date'' \<mapsto> VItems [(''beginposition'', ''2017-04-09T01:02:03Z''),
                                (''endposition'', ''2017-04-09T01:02:30Z''),
                                (''sensingStart'', ''2017-04-09T01:02:03Z'')])))
     ''sensingStart'' = Some (VStr ''2017-04-09T01:02:03Z'')"
    by (simp add: result_field_def massage_defs demo_env_def demo_entry_def)
  have 4: "result_field
     (massage_result demo_env
        ((demo_entry ''S1A_IW_SLC__1SDV'' ''28'')
           (''str'' \<mapsto> VItems [(''orbitdirection'', ''DESCENDING''), (''footprint'', ''POLYGON''),
                               (''endposition'', ''2017-04-09T01:02:30Z'')],
            ''date'' \<mapsto> VItems [(''beginposition'', ''2017-04-09T01:02:03Z'')])))
     ''sensingStop'' = Some (VStr ''2017-04-09T01:02:30Z'')"
    by (simp add: result_field_def massage_defs demo_env_def demo_entry_def)
  show ?thesis
    unfolding 1 2 3 4 by simp
qed
















end
